theory Spec2Isabelle
  imports Complex_Main "HOL-Library.Sublist"
begin

section \<open>Common notions\<close>

text \<open>
  The Python exceptions that the modelled code can meet. \<open>StoreError\<close> stands for every
  exception of the record store (a driver error, or the \<open>RuntimeError\<close> that
  \<open>DatabaseManager.get_collection\<close> raises when the store is not connected),
  \<open>WorkerUnavailable\<close> for the \<open>Exception\<close> that \<open>_send_campaign_message\<close> raises
  when the bot has no worker, \<open>PlatformError\<close> for what the chat platform's client raises.
  \<open>CancelledError\<close> is \<open>asyncio.CancelledError\<close>: it is not an \<open>Exception\<close>, so
  \<open>except Exception\<close> lets it pass.
\<close>

datatype exn = IndexError | KeyError | ValueError | ZeroDivisionError | StoreError
  | WorkerUnavailable | PlatformError | CancelledError

text \<open>
  What awaiting a coroutine gives: it returns a value, it raises, or it never resumes
  because it waits for an \<open>asyncio.Lock\<close> that nobody will release.
\<close>

datatype 'a outcome = Returned 'a | Raised exn | Blocked

text \<open>
  The clock is the controllable clock of the specification: \<open>time.time()\<close> reads
  \<open>now\<close>, and \<open>asyncio.sleep d\<close> is the only thing that moves it, by \<open>d\<close> when
  \<open>d\<close> is positive. Every sleep is logged, so that "returns without sleeping" is a
  statement about the log. Python floats are taken as reals.
\<close>

record clock =
  now :: real
  sleeps :: "real list"

definition sleep :: "real \<Rightarrow> clock \<Rightarrow> clock" where
  "sleep d c = c\<lparr>now := now c + max 0 d, sleeps := sleeps c @ [d]\<rparr>"

text \<open>Python's truth value of an \<open>Optional[float]\<close>: \<open>None\<close> and \<open>0.0\<close> are false.\<close>

definition truthy :: "real option \<Rightarrow> bool" where
  "truthy v = (case v of None \<Rightarrow> False | Some x \<Rightarrow> x \<noteq> 0)"

section \<open>rate\_limiter.py\<close>

subsection \<open>RateLimitBucket\<close>

record RateLimitBucket =
  remaining :: int
  limit :: int
  reset_after :: real
  reset_timestamp :: real
  retry_after :: "real option"

text \<open>The dataclass defaults.\<close>

definition new_bucket :: RateLimitBucket where
  "new_bucket = \<lparr>remaining = 0, limit = 1, reset_after = 0, reset_timestamp = 0,
     retry_after = None\<rparr>"

definition is_rate_limited :: "RateLimitBucket \<Rightarrow> real \<Rightarrow> bool" where
  "is_rate_limited b current_time =
     (if truthy (retry_after b) \<and> current_time < the (retry_after b) then True
      else if remaining b \<le> 0 \<and> current_time < reset_timestamp b then True
      else False)"

definition time_until_reset :: "RateLimitBucket \<Rightarrow> real \<Rightarrow> real" where
  "time_until_reset b current_time =
     (if truthy (retry_after b) \<and> current_time < the (retry_after b)
        then the (retry_after b) - current_time
      else if current_time < reset_timestamp b then reset_timestamp b - current_time
      else 0)"

subsection \<open>String helpers of the bucket key\<close>

text \<open>\<open>s.split(c)\<close> for a one-character separator: the empty string gives \<open>['']\<close>.\<close>

fun split_on :: "char \<Rightarrow> string \<Rightarrow> string list" where
  "split_on c [] = [[]]"
| "split_on c (x # xs) =
     (if x = c then [] # split_on c xs
      else (case split_on c xs of [] \<Rightarrow> [[x]] | p # ps \<Rightarrow> (x # p) # ps))"

text \<open>\<open>xs[i]\<close> for a non-negative index: out of range raises \<open>IndexError\<close>.\<close>

definition index :: "'a list \<Rightarrow> nat \<Rightarrow> exn + 'a" where
  "index xs i = (if i < length xs then Inr (xs ! i) else Inl IndexError)"

subsection \<open>DiscordRateLimiter\<close>

text \<open>
  A lock is its \<open>locked\<close> flag. \<open>async with lock\<close> waits while the flag is set, sets it,
  runs the body and clears it on the way out.
\<close>

record DiscordRateLimiter =
  limiter_bot_id :: string
  buckets :: "string \<rightharpoonup> RateLimitBucket"
  locks :: "string \<rightharpoonup> bool"
  global_rate_limit :: "real option"

definition new_limiter :: "string \<Rightarrow> DiscordRateLimiter" where
  "new_limiter b = \<lparr>limiter_bot_id = b, buckets = Map.empty, locks = Map.empty,
     global_rate_limit = None\<rparr>"

text \<open>
  \<open>_get_bucket_key\<close>. The \<open>guild_id\<close> argument is overwritten before it is read, so it
  does not reach the result.
\<close>

definition get_bucket_key :: "string \<Rightarrow> string \<Rightarrow> string option \<Rightarrow> exn + string" where
  "get_bucket_key method endpoint guild_id =
     (if prefix ''/channels/'' endpoint then
        (if sublist ''/messages'' endpoint
         then (case index (split_on CHR ''/'' endpoint) 2 of
                 Inl e \<Rightarrow> Inl e | Inr p \<Rightarrow> Inr (''channel_messages:'' @ p))
         else (case index (split_on CHR ''/'' endpoint) 2 of
                 Inl e \<Rightarrow> Inl e | Inr p \<Rightarrow> Inr (''channel:'' @ p)))
      else if prefix ''/guilds/'' endpoint then
        (case index (split_on CHR ''/'' endpoint) 2 of
           Inl e \<Rightarrow> Inl e
         | Inr g \<Rightarrow> (if sublist ''/members'' endpoint then Inr (''guild_members:'' @ g)
                     else Inr (''guild:'' @ g)))
      else if sublist ''/users/'' endpoint \<and> sublist ''/channels'' endpoint then
        Inr ''dm_channels''
      else Inr (method @ '':'' @ endpoint))"

text \<open>The blocks of \<open>acquire\<close>, in the order of the source.\<close>

definition ensure_lock :: "string \<Rightarrow> DiscordRateLimiter \<Rightarrow> DiscordRateLimiter" where
  "ensure_lock k l = (if k \<notin> dom (locks l) then l\<lparr>locks := (locks l)(k \<mapsto> False)\<rparr> else l)"

definition global_wait :: "DiscordRateLimiter \<times> clock \<Rightarrow> DiscordRateLimiter \<times> clock" where
  "global_wait lc =
     (case lc of (l, c) \<Rightarrow>
        if truthy (global_rate_limit l) \<and> now c < the (global_rate_limit l)
        then (l\<lparr>global_rate_limit := None\<rparr>, sleep (the (global_rate_limit l) - now c) c)
        else (l, c))"

definition ensure_bucket :: "string \<Rightarrow> DiscordRateLimiter \<Rightarrow> DiscordRateLimiter" where
  "ensure_bucket k l =
     (if k \<notin> dom (buckets l) then l\<lparr>buckets := (buckets l)(k \<mapsto> new_bucket)\<rparr> else l)"

text \<open>
  The wait of a rate-limited bucket, then its reset: \<open>remaining\<close> back to \<open>limit\<close>,
  \<open>retry_after\<close> cleared.
\<close>

definition bucket_wait :: "RateLimitBucket \<times> clock \<Rightarrow> RateLimitBucket \<times> clock" where
  "bucket_wait bc =
     (case bc of (b, c) \<Rightarrow>
        if is_rate_limited b (now c)
        then (b\<lparr>remaining := limit b, retry_after := None\<rparr>,
              sleep (time_until_reset b (now c)) c)
        else (b, c))"

definition decrease :: "RateLimitBucket \<Rightarrow> RateLimitBucket" where
  "decrease b = (if remaining b > 0 then b\<lparr>remaining := remaining b - 1\<rparr> else b)"

definition release :: "string \<Rightarrow> DiscordRateLimiter \<Rightarrow> DiscordRateLimiter" where
  "release k l = l\<lparr>locks := (locks l)(k \<mapsto> False)\<rparr>"

definition acquire ::
  "DiscordRateLimiter \<Rightarrow> clock \<Rightarrow> string \<Rightarrow> string \<Rightarrow> string option
     \<Rightarrow> bool outcome \<times> DiscordRateLimiter \<times> clock" where
  "acquire l c method endpoint guild_id =
     (case get_bucket_key method endpoint guild_id of
        Inl e \<Rightarrow> (Raised e, l, c)
      | Inr k \<Rightarrow>
          let l1 = ensure_lock k l in
          (case locks l1 k of
             None \<Rightarrow> (Raised KeyError, l1, c)
           | Some True \<Rightarrow> (Blocked, l1, c)
           | Some False \<Rightarrow>
               let l2 = l1\<lparr>locks := (locks l1)(k \<mapsto> True)\<rparr>;
                   (l3, c3) = global_wait (l2, c);
                   l4 = ensure_bucket k l3
               in (case buckets l4 k of
                     None \<Rightarrow> (Raised KeyError, release k l4, c3)
                   | Some b \<Rightarrow>
                       let (b5, c5) = bucket_wait (b, c3);
                           b6 = decrease b5
                       in (Returned True, release k (l4\<lparr>buckets := (buckets l4)(k \<mapsto> b6)\<rparr>),
                           c5))))"

subsection \<open>CampaignRateLimiter\<close>

record CampaignRateLimiter =
  messages_per_minute :: int
  message_times :: "real list"
  lock :: bool

definition new_campaign_limiter :: "int \<Rightarrow> CampaignRateLimiter" where
  "new_campaign_limiter mpm = \<lparr>messages_per_minute = mpm, message_times = [], lock = False\<rparr>"

text \<open>\<open>min(xs)\<close>: \<open>ValueError\<close> on the empty list.\<close>

definition py_min :: "real list \<Rightarrow> exn + real" where
  "py_min xs = (case xs of [] \<Rightarrow> Inl ValueError | x # ys \<Rightarrow> Inr (fold min ys x))"

text \<open>
  \<open>CampaignRateLimiter.acquire\<close>. The body runs inside \<open>async with self.lock\<close>, and so
  does its recursive call, which starts by waiting for that same lock: a call that finds
  the lock held does not go on. The recursion is therefore at most one call deep, which is
  its termination argument.
\<close>

function campaign_acquire ::
  "CampaignRateLimiter \<Rightarrow> clock \<Rightarrow> bool outcome \<times> CampaignRateLimiter \<times> clock" where
  "campaign_acquire l c =
     (if lock l then (Blocked, l, c)
      else
        let current_time = now c;
            cutoff_time = current_time - 60;
            kept = filter (\<lambda>t. t > cutoff_time) (message_times l);
            l1 = l\<lparr>message_times := kept, lock := True\<rparr>
        in if int (length kept) \<ge> messages_per_minute l1 then
             (case py_min kept of
                Inl e \<Rightarrow> (Raised e, l1\<lparr>lock := False\<rparr>, c)
              | Inr oldest_message_time \<Rightarrow>
                  let wait_time = 60 - (current_time - oldest_message_time) in
                  if wait_time > 0 then
                    (case campaign_acquire l1 (sleep wait_time c) of
                       (Blocked, l2, c2) \<Rightarrow> (Blocked, l2, c2)
                     | (r, l2, c2) \<Rightarrow> (r, l2\<lparr>lock := False\<rparr>, c2))
                  else (Returned True, l1\<lparr>message_times := kept @ [current_time], lock := False\<rparr>, c))
           else (Returned True, l1\<lparr>message_times := kept @ [current_time], lock := False\<rparr>, c))"
  by pat_completeness auto
termination
  by (relation "measure (\<lambda>(l, c). if lock l then 0 else 1)") auto

text \<open>
  A task that issues \<open>n\<close> calls one after the other: the outcomes in order. The task
  issues no further call once one of them does not return.
\<close>

fun issue :: "nat \<Rightarrow> CampaignRateLimiter \<Rightarrow> clock
    \<Rightarrow> bool outcome list \<times> CampaignRateLimiter \<times> clock" where
  "issue 0 l c = ([], l, c)"
| "issue (Suc n) l c =
     (case campaign_acquire l c of
        (Returned b, l1, c1) \<Rightarrow> (case issue n l1 c1 of (rs, l2, c2) \<Rightarrow> (Returned b # rs, l2, c2))
      | (r, l1, c1) \<Rightarrow> ([r], l1, c1))"


text \<open>
  \<open>n\<close> consecutive calls of \<open>DiscordRateLimiter.acquire\<close> for one method and endpoint,
  issued by one task.
\<close>

fun acquires :: "nat \<Rightarrow> DiscordRateLimiter \<Rightarrow> clock \<Rightarrow> string \<Rightarrow> string \<Rightarrow> string option
    \<Rightarrow> bool outcome list \<times> DiscordRateLimiter \<times> clock" where
  "acquires 0 l c m e g = ([], l, c)"
| "acquires (Suc n) l c m e g =
     (case acquire l c m e g of
        (Returned b, l1, c1) \<Rightarrow>
          (case acquires n l1 c1 m e g of (rs, l2, c2) \<Rightarrow> (Returned b # rs, l2, c2))
      | (r, l1, c1) \<Rightarrow> ([r], l1, c1))"

text \<open>
  The two cooldowns a 429 response leaves behind (\<open>update_rate_limits\<close>): a retry-after
  on the bucket and the global cooldown of the limiter. Each is pending while its time lies
  ahead; these are the conditions that \<open>is_rate_limited\<close> and \<open>acquire\<close> test first.
\<close>

definition retry_pending :: "RateLimitBucket \<Rightarrow> real \<Rightarrow> bool" where
  "retry_pending b t = (truthy (retry_after b) \<and> t < the (retry_after b))"

definition global_pending :: "DiscordRateLimiter \<Rightarrow> real \<Rightarrow> bool" where
  "global_pending l t = (truthy (global_rate_limit l) \<and> t < the (global_rate_limit l))"

text \<open>Two buckets of the DM endpoint used in the examples below.\<close>

definition cooling_bucket :: RateLimitBucket where
  "cooling_bucket = \<lparr>remaining = 1, limit = 1, reset_after = 100, reset_timestamp = 100,
     retry_after = Some 50\<rparr>"

definition cooling_limiter :: DiscordRateLimiter where
  "cooling_limiter = \<lparr>limiter_bot_id = ''bot1'', buckets = [''dm_channels'' \<mapsto> cooling_bucket],
     locks = Map.empty, global_rate_limit = None\<rparr>"

definition fresh_bucket :: RateLimitBucket where
  "fresh_bucket = \<lparr>remaining = 2, limit = 2, reset_after = 5, reset_timestamp = 5,
     retry_after = Some (-1)\<rparr>"

definition fresh_limiter :: DiscordRateLimiter where
  "fresh_limiter = \<lparr>limiter_bot_id = ''bot1'', buckets = [''dm_channels'' \<mapsto> fresh_bucket],
     locks = Map.empty, global_rate_limit = None\<rparr>"

section \<open>Properties of the rate limiters\<close>

subsection \<open>The bucket key is always defined\<close>

lemma length_split_on: "length (split_on c s) = Suc (length (filter (\<lambda>x. x = c) s))"
  by (induction s) (auto split: list.splits)

lemma split_on_prefix_channels:
  assumes "prefix ''/channels/'' e"
  shows "2 < length (split_on CHR ''/'' e)"
proof -
  from assms obtain r where "e = ''/channels/'' @ r" by (auto simp: prefix_def)
  then show ?thesis by (simp add: length_split_on)
qed

lemma split_on_prefix_guilds:
  assumes "prefix ''/guilds/'' e"
  shows "2 < length (split_on CHR ''/'' e)"
proof -
  from assms obtain r where "e = ''/guilds/'' @ r" by (auto simp: prefix_def)
  then show ?thesis by (simp add: length_split_on)
qed

lemma get_bucket_key_total: "\<exists>k. get_bucket_key m e g = Inr k"
  by (simp add: get_bucket_key_def index_def split_on_prefix_channels split_on_prefix_guilds)

lemma dm_bucket_key: "get_bucket_key ''POST'' ''/users/@me/channels'' None = Inr ''dm_channels''"
  by (simp add: get_bucket_key_def sublist_code)

subsection \<open>One call of acquire\<close>

lemma locks_ensure_lock:
  "locks (ensure_lock k l) k = (case locks l k of None \<Rightarrow> Some False | Some v \<Rightarrow> Some v)"
  by (auto simp: ensure_lock_def split: option.splits)

lemma buckets_ensure_bucket:
  "buckets (ensure_bucket k l) k =
     (case buckets l k of None \<Rightarrow> Some new_bucket | Some v \<Rightarrow> Some v)"
  by (auto simp: ensure_bucket_def split: option.splits)

lemma ensure_lock_free:
  assumes "locks l k \<noteq> Some True"
  shows "locks (ensure_lock k l) k = Some False"
    and "(locks (ensure_lock k l))(k \<mapsto> False) = (locks l)(k \<mapsto> False)"
    and "buckets (ensure_lock k l) = buckets l"
    and "global_rate_limit (ensure_lock k l) = global_rate_limit l"
  using assms by (cases "locks l k"; auto simp: ensure_lock_def)+

lemma global_wait_idle:
  "\<not> global_pending l (now c) \<Longrightarrow> global_wait (l, c) = (l, c)"
  by (auto simp: global_wait_def global_pending_def)

text \<open>
  With the bucket's lock free and no global cooldown pending, the call returns \<open>True\<close>;
  what it does to the bucket and the clock is \<open>bucket_wait\<close> followed by \<open>decrease\<close>.
\<close>

lemma acquire_free:
  assumes k: "get_bucket_key m e g = Inr k"
    and b: "buckets l k = Some b"
    and free: "locks l k \<noteq> Some True"
    and nog: "\<not> global_pending l (now c)"
  shows "acquire l c m e g =
           (Returned True,
            l\<lparr>buckets := (buckets l)(k \<mapsto> decrease (fst (bucket_wait (b, c)))),
              locks := (locks l)(k \<mapsto> False)\<rparr>,
            snd (bucket_wait (b, c)))"
proof -
  define l1 where "l1 = ensure_lock k l"
  define l2 where "l2 = l1\<lparr>locks := (locks l1)(k \<mapsto> True)\<rparr>"
  have l1: "locks l1 k = Some False"
    by (simp add: l1_def ensure_lock_free[OF free])
  have g2: "global_wait (l2, c) = (l2, c)"
    using nog
    by (intro global_wait_idle) (simp add: global_pending_def l2_def l1_def ensure_lock_free[OF free])
  have b2: "ensure_bucket k l2 = l2" "buckets l2 k = Some b"
    using b by (simp_all add: ensure_bucket_def l2_def l1_def ensure_lock_free[OF free] domI)
  have eq: "release k (l2\<lparr>buckets := (buckets l2)(k \<mapsto> x)\<rparr>) =
        l\<lparr>buckets := (buckets l)(k \<mapsto> x), locks := (locks l)(k \<mapsto> False)\<rparr>" for x
    using free by (cases "locks l k") (auto simp: release_def ensure_lock_def l2_def l1_def)
  have "acquire l c m e g =
      (let (b5, c5) = bucket_wait (b, c); b6 = decrease b5
       in (Returned True, release k (l2\<lparr>buckets := (buckets l2)(k \<mapsto> b6)\<rparr>), c5))"
    unfolding acquire_def k sum.case Let_def l1_def[symmetric]
    unfolding l1 option.case bool.case l2_def[symmetric] g2 prod.case b2
    by simp
  then show ?thesis
    by (simp add: eq split: prod.splits)
qed

text \<open>
  C7. \<open>DiscordRateLimiter.acquire\<close> never fails. For every method, endpoint, guild
  argument, limiter state and clock, the call does not raise and does not return \<open>False\<close>:
  it returns \<open>True\<close> (possibly after sleeping), and the one other thing it can do is wait
  for the bucket's lock while another call holds it.
\<close>

theorem acquire_never_fails:
  "fst (acquire l c m ep g) = Returned True \<or>
   (fst (acquire l c m ep g) = Blocked \<and>
    (\<exists>k. get_bucket_key m ep g = Inr k \<and> locks l k = Some True))"
proof -
  obtain k where k: "get_bucket_key m ep g = Inr k"
    using get_bucket_key_total by blast
  show ?thesis
  proof (cases "locks l k = Some True")
    case True
    then show ?thesis
      by (simp add: acquire_def k Let_def locks_ensure_lock)
  next
    case False
    then have "locks (ensure_lock k l) k = Some False"
      by (cases "locks l k") (auto simp: locks_ensure_lock)
    then show ?thesis
      by (simp add: acquire_def k Let_def buckets_ensure_bucket split: prod.splits option.splits)
  qed
qed

text \<open>C7, at a new limiter and the DM endpoint: no lock is held, so the call returns \<open>True\<close>.\<close>

theorem acquire_never_fails_witness:
  "fst (acquire (new_limiter ''bot1'') \<lparr>now = 0, sleeps = []\<rparr> ''POST'' ''/users/@me/channels'' None)
     = Returned True"
  using acquire_never_fails
    [of "new_limiter ''bot1''" "\<lparr>now = 0, sleeps = []\<rparr>" "''POST''" "''/users/@me/channels''" None]
  by (simp add: dm_bucket_key new_limiter_def)

subsection \<open>A bucket with N permits\<close>

lemma bucket_wait_open:
  "\<not> retry_pending b (now c) \<Longrightarrow> 0 < remaining b \<Longrightarrow> bucket_wait (b, c) = (b, c)"
  by (auto simp: bucket_wait_def is_rate_limited_def retry_pending_def)

lemma bucket_wait_exhausted:
  "\<not> retry_pending b (now c) \<Longrightarrow> remaining b \<le> 0 \<Longrightarrow> now c < reset_timestamp b \<Longrightarrow>
   bucket_wait (b, c) =
     (b\<lparr>remaining := limit b, retry_after := None\<rparr>, sleep (reset_timestamp b - now c) c)"
  by (auto simp: bucket_wait_def is_rate_limited_def time_until_reset_def retry_pending_def)

lemma acquires_open:
  assumes "get_bucket_key m e g = Inr k"
    and "buckets l k = Some b"
    and "locks l k \<noteq> Some True"
    and "\<not> global_pending l (now c)"
    and "\<not> retry_pending b (now c)"
    and "remaining b = int n"
  shows "\<exists>l'. acquires n l c m e g = (replicate n (Returned True), l', c) \<and>
           buckets l' k = Some (b\<lparr>remaining := 0\<rparr>) \<and> locks l' k \<noteq> Some True \<and>
           global_rate_limit l' = global_rate_limit l"
  using assms
proof (induction n arbitrary: l b)
  case 0
  then show ?case by simp
next
  case (Suc n)
  let ?l1 = "l\<lparr>buckets := (buckets l)(k \<mapsto> decrease b), locks := (locks l)(k \<mapsto> False)\<rparr>"
  have pos: "0 < remaining b" using Suc.prems(6) by simp
  have step: "acquire l c m e g = (Returned True, ?l1, c)"
    using acquire_free[OF Suc.prems(1-4)] bucket_wait_open[OF Suc.prems(5) pos] by simp
  have dec: "decrease b = b\<lparr>remaining := int n\<rparr>"
    using Suc.prems(6) by (simp add: decrease_def)
  have "\<exists>l'. acquires n ?l1 c m e g = (replicate n (Returned True), l', c) \<and>
           buckets l' k = Some ((decrease b)\<lparr>remaining := 0\<rparr>) \<and> locks l' k \<noteq> Some True \<and>
           global_rate_limit l' = global_rate_limit ?l1"
    using Suc.prems
    by (intro Suc.IH) (simp_all add: global_pending_def dec retry_pending_def)
  then show ?case
    by (auto simp: step dec)
qed

text \<open>
  C3, as stated, fails on a bucket that still carries a retry-after from a 429 response:
  \<open>cooling_bucket\<close> holds \<open>remaining = 1\<close>, \<open>limit = 1\<close> and a reset time in the future,
  and the first call for its endpoint sleeps 50 seconds (until the retry-after), because
  \<open>is_rate_limited\<close> tests the retry-after before it looks at \<open>remaining\<close>.
\<close>

theorem first_acquire_sleeps_on_pending_retry_after:
  "remaining cooling_bucket = 1 \<and> limit cooling_bucket = 1 \<and>
   now \<lparr>now = 0, sleeps = []\<rparr> < reset_timestamp cooling_bucket \<and>
   get_bucket_key ''POST'' ''/users/@me/channels'' None = Inr ''dm_channels'' \<and>
   snd (snd (acquire cooling_limiter \<lparr>now = 0, sleeps = []\<rparr> ''POST'' ''/users/@me/channels'' None))
     = \<lparr>now = 50, sleeps = [50]\<rparr>"
  by (simp add: cooling_bucket_def cooling_limiter_def acquire_def get_bucket_key_def
      sublist_code ensure_lock_def ensure_bucket_def global_wait_def bucket_wait_def
      is_rate_limited_def time_until_reset_def truthy_def sleep_def Let_def decrease_def release_def)

text \<open>
  C3, amended. Take a bucket holding \<open>remaining = N\<close>, \<open>limit = N\<close> and a reset time in
  the future, with no retry-after pending on it, no global cooldown pending on the limiter
  and the bucket's lock free. Then \<open>N\<close> consecutive \<open>acquire\<close> calls for that bucket's method
  and endpoint all return \<open>True\<close> and leave the clock as it was (nobody slept); the next call
  sleeps exactly until the bucket's reset time and returns \<open>True\<close>; and the bucket it leaves
  is the old one with \<open>remaining\<close> reset to \<open>limit\<close> and \<open>retry_after\<close> cleared, less the
  one permit that this call takes (\<open>decrease\<close>).
\<close>

theorem acquire_exhausts_then_waits_for_reset:
  assumes "get_bucket_key m e g = Inr k"
    and "buckets l k = Some b"
    and "remaining b = int N" and "limit b = int N"
    and "now c < reset_timestamp b"
    and "\<not> retry_pending b (now c)"
    and "\<not> global_pending l (now c)"
    and "locks l k \<noteq> Some True"
  shows "\<exists>lN l'. acquires N l c m e g = (replicate N (Returned True), lN, c) \<and>
           acquire lN c m e g = (Returned True, l', sleep (reset_timestamp b - now c) c) \<and>
           now (sleep (reset_timestamp b - now c) c) = reset_timestamp b \<and>
           buckets l' k = Some (decrease (b\<lparr>remaining := limit b, retry_after := None\<rparr>))"
proof -
  obtain lN where n: "acquires N l c m e g = (replicate N (Returned True), lN, c)"
    and bN: "buckets lN k = Some (b\<lparr>remaining := 0\<rparr>)" and fN: "locks lN k \<noteq> Some True"
    and gN: "global_rate_limit lN = global_rate_limit l"
    using acquires_open[OF assms(1,2,8,7,6,3)] by blast
  have gp: "\<not> global_pending lN (now c)"
    using assms(7) by (simp add: global_pending_def gN)
  have w: "bucket_wait (b\<lparr>remaining := 0\<rparr>, c) =
      (b\<lparr>remaining := limit b, retry_after := None\<rparr>, sleep (reset_timestamp b - now c) c)"
    using bucket_wait_exhausted[of "b\<lparr>remaining := 0\<rparr>" c] assms(5,6)
    by (simp add: retry_pending_def)
  have "now (sleep (reset_timestamp b - now c) c) = reset_timestamp b"
    using assms(5) by (simp add: sleep_def)
  then show ?thesis
    using n acquire_free[OF assms(1) bN fN gp] by (simp add: w)
qed

text \<open>
  C3, amended, at \<open>fresh_bucket\<close> (\<open>N = 2\<close>, reset time 5, a stale retry-after): two calls
  return at time 0 without sleeping, the third sleeps 5 seconds, and the bucket ends with
  one permit left of two and no retry-after.
\<close>

theorem acquire_exhausts_then_waits_for_reset_witness:
  "\<exists>lN l'. acquires 2 fresh_limiter \<lparr>now = 0, sleeps = []\<rparr> ''POST'' ''/users/@me/channels'' None
              = ([Returned True, Returned True], lN, \<lparr>now = 0, sleeps = []\<rparr>) \<and>
           acquire lN \<lparr>now = 0, sleeps = []\<rparr> ''POST'' ''/users/@me/channels'' None
              = (Returned True, l', \<lparr>now = 5, sleeps = [5]\<rparr>) \<and>
           buckets l' ''dm_channels'' = Some (fresh_bucket\<lparr>remaining := 1, retry_after := None\<rparr>)"
proof -
  have b: "buckets fresh_limiter ''dm_channels'' = Some fresh_bucket"
    by (simp add: fresh_limiter_def)
  show ?thesis
    using acquire_exhausts_then_waits_for_reset
      [OF dm_bucket_key b, of 2 "\<lparr>now = 0, sleeps = []\<rparr>"]
    by (simp add: fresh_bucket_def fresh_limiter_def retry_pending_def global_pending_def
        truthy_def sleep_def decrease_def numeral_2_eq_2)
qed

subsection \<open>The campaign pacer\<close>

lemma fold_min_in: "fold min ys (x::real) \<in> set (x # ys)"
proof (induction ys arbitrary: x)
  case Nil
  then show ?case by simp
next
  case (Cons y ys)
  have "fold min ys (min y x) \<in> set (min y x # ys)" by (rule Cons.IH)
  moreover have "min y x = x \<or> min y x = y" by (simp add: min_def)
  ultimately show ?case by auto
qed

text \<open>While the window has room, the call records the send and returns at once.\<close>

lemma campaign_acquire_open_window:
  assumes free: "\<not> lock l"
    and kept: "kept = filter (\<lambda>t. t > now c - 60) (message_times l)"
    and room: "int (length kept) < messages_per_minute l"
  shows "campaign_acquire l c =
           (Returned True, l\<lparr>message_times := kept @ [now c], lock := False\<rparr>, c)"
  using free room kept[symmetric] by (subst campaign_acquire.simps) (simp add: Let_def)

text \<open>
  Once the window is full, every entry kept is younger than 60 seconds, so the wait is
  positive: the call sleeps and then calls itself with the lock still held. That inner call
  waits for the lock, which only the outer call could release after the inner one
  returns, so the call never returns.
\<close>

lemma campaign_acquire_full_window:
  assumes free: "\<not> lock l"
    and kept: "kept = filter (\<lambda>t. t > now c - 60) (message_times l)"
    and full: "messages_per_minute l \<le> int (length kept)"
    and ne: "kept \<noteq> []"
  shows "\<exists>w. 0 < w \<and> campaign_acquire l c =
           (Blocked, l\<lparr>message_times := kept, lock := True\<rparr>, sleep w c)"
proof -
  obtain x ys where xs: "kept = x # ys" using ne by (cases kept) auto
  define oldest where "oldest = fold min ys x"
  have "oldest \<in> set kept" unfolding oldest_def xs by (rule fold_min_in)
  then have "oldest > now c - 60" unfolding kept by simp
  then have w: "0 < 60 - (now c - oldest)" by simp
  have m: "py_min kept = Inr oldest" by (simp add: py_min_def xs oldest_def)
  have "campaign_acquire l c =
          (Blocked, l\<lparr>message_times := kept, lock := True\<rparr>, sleep (60 - (now c - oldest)) c)"
    using free full w m kept[symmetric] by (subst campaign_acquire.simps) (simp add: Let_def)
  with w show ?thesis by blast
qed

text \<open>
  C1, on the code. A pacer built with \<open>messages_per_minute = 10\<close> is asked 15 times in a
  row at time 0. The first ten calls return \<open>True\<close> without sleeping. The eleventh sleeps
  the 60 seconds until the oldest slot frees and then never returns: the lock is still
  held, the clock stands at 60, and calls twelve to fifteen are never issued.
\<close>

theorem eleventh_acquire_never_returns:
  "issue 15 (new_campaign_limiter 10) \<lparr>now = 0, sleeps = []\<rparr> =
     (replicate 10 (Returned True) @ [Blocked],
      \<lparr>messages_per_minute = 10, message_times = replicate 10 0, lock = True\<rparr>,
      \<lparr>now = 60, sleeps = [60]\<rparr>)"
  by (simp add: new_campaign_limiter_def py_min_def sleep_def numeral_nat Let_def)


section \<open>The record store and the process-wide state\<close>

subsection \<open>mongodb\_schema.py\<close>

datatype CampaignMode = INSTANT | PACED | SCHEDULED

datatype CampaignStatus = PENDING | RUNNING | PAUSED | COMPLETED | CANCELLED

datatype TargetStatus = TARGET_PENDING | SENT | TARGET_FAILED | SKIPPED

datatype SendStatus = SUCCESS | FAILED | RATE_LIMITED

datatype EmbedConfig = EmbedConfig "string option" "string option"

text \<open>
  Documents are typed rows. \<open>_id\<close> is the key the store gives a document on insertion;
  times (\<open>datetime.utcnow()\<close>) are readings of the clock.
\<close>

record MemberBotAssignment =
  assignment_id :: nat
  guild_id :: string
  user_id :: string
  assigned_bot_id :: string
  assigned_at :: real
  last_dm_at :: "real option"
  total_dms_sent :: int
  assignment_reason :: string
  fallback_bot_ids :: "string list"
  is_active :: bool
  updated_at :: real

text \<open>
  A campaign document: \<open>campaign_key\<close> is its \<open>_id\<close>, and \<open>campaign_id_field\<close> is the
  model field \<open>id\<close>, which \<open>Campaign(**campaign_doc)\<close> reads back as it was stored.
\<close>

record Campaign =
  campaign_key :: string
  campaign_id_field :: "string option"
  campaign_guild_id :: string
  name :: string
  message_content :: string
  embed_data :: "EmbedConfig option"
  mode :: CampaignMode
  pace :: int
  start_at :: "real option"
  status :: CampaignStatus
  total_targets :: int
  completed_targets :: int
  failed_targets :: int
  campaign_updated_at :: real

record CampaignTarget =
  target_campaign_id :: string
  target_user_id :: string
  target_assigned_bot_id :: string
  target_status :: TargetStatus
  last_error :: "string option"
  sent_at :: "real option"

record Send =
  send_campaign_id :: string
  send_user_id :: string
  send_bot_id :: string
  send_status :: SendStatus
  error_code :: "string option"
  error_message :: "string option"

text \<open>An entry of \<open>available_bots\<close>, as \<open>get_available_bots_for_guild\<close> builds it.\<close>

record bot =
  bot_id :: string
  bot_name :: string
  queue_size :: nat

subsection \<open>Workers and tasks\<close>

record queued_message =
  message_user_id :: string
  message_text :: string
  message_embed :: "EmbedConfig option"
  message_campaign_id :: "string option"
  queued_at :: real

record worker =
  worker_bot_id :: string
  rate_limiter :: DiscordRateLimiter
  message_queue :: "queued_message list"
  processed_messages :: nat
  failed_messages :: nat
  errors_last_hour :: nat

text \<open>
  What a campaign task runs: \<open>_schedule_campaign(campaign_id, delay)\<close> or
  \<open>_execute_campaign(campaign_id)\<close>.
\<close>

datatype task = ScheduleTask string real | ExecuteTask string

subsection \<open>The world\<close>

text \<open>
  A store call may fail. \<open>Fail k\<close> is a call that raises after the store has written the
  first \<open>k\<close> of the rows the call would write (\<open>Fail 0\<close>: nothing written); a read that
  fails just raises. This covers a lost connection as well as a write refused half-way by
  a unique index. The calls of a run take their faults from \<open>faults\<close> in order, and a
  run that has used the list up meets no further fault.

  \<open>rnd\<close> feeds \<open>random\<close> in the same way, with 0 once the list is used up.
\<close>

datatype fault = NoFault | Fail nat

record world =
  connected :: bool
  faults :: "fault list"
  rnd :: "nat list"
  clk :: clock
  assignments :: "MemberBotAssignment list"
  campaigns :: "Campaign list"
  campaign_targets :: "CampaignTarget list"
  sends :: "Send list"
  active_campaigns :: "string \<rightharpoonup> Campaign"
  campaign_tasks :: "string \<rightharpoonup> task"
  cancelled_tasks :: "task list"
  active_workers :: "string \<rightharpoonup> worker"

text \<open>
  A coroutine over the world returns a value or raises, and leaves a world behind. The
  combinators are sequencing (\<open>await\<close>), \<open>return\<close>, \<open>raise\<close>,
  \<open>try ... except Exception\<close> (\<open>try_except\<close>, which does not catch a cancellation) and
  \<open>try ... except asyncio.CancelledError\<close> (\<open>except_cancelled\<close>).
\<close>

type_synonym 'a act = "world \<Rightarrow> (exn + 'a) \<times> world"

definition ret :: "'a \<Rightarrow> 'a act" where
  "ret x = (\<lambda>w. (Inr x, w))"

definition raise :: "exn \<Rightarrow> 'a act" where
  "raise e = (\<lambda>w. (Inl e, w))"

definition await :: "'a act \<Rightarrow> ('a \<Rightarrow> 'b act) \<Rightarrow> 'b act" where
  "await m f = (\<lambda>w. case m w of (Inl e, w1) \<Rightarrow> (Inl e, w1) | (Inr x, w1) \<Rightarrow> f x w1)"

definition try_except :: "'a act \<Rightarrow> (exn \<Rightarrow> 'a act) \<Rightarrow> 'a act" where
  "try_except m h = (\<lambda>w. case m w of
       (Inl e, w1) \<Rightarrow> if e = CancelledError then (Inl e, w1) else h e w1
     | (Inr x, w1) \<Rightarrow> (Inr x, w1))"

definition except_cancelled :: "'a act \<Rightarrow> 'a act \<Rightarrow> 'a act" where
  "except_cancelled m h = (\<lambda>w. case m w of
       (Inl e, w1) \<Rightarrow> if e = CancelledError then h w1 else (Inl e, w1)
     | (Inr x, w1) \<Rightarrow> (Inr x, w1))"

definition utcnow :: "real act" where
  "utcnow = (\<lambda>w. (Inr (now (clk w)), w))"

text \<open>\<open>DatabaseManager.get_collection\<close>: \<open>RuntimeError\<close> when not connected.\<close>

definition get_collection :: "unit act" where
  "get_collection = (\<lambda>w. if connected w then (Inr (), w) else (Inl StoreError, w))"

definition take_fault :: "world \<Rightarrow> fault \<times> world" where
  "take_fault w = (case faults w of [] \<Rightarrow> (NoFault, w) | f # fs \<Rightarrow> (f, w\<lparr>faults := fs\<rparr>))"

subsection \<open>Store calls on a collection\<close>

text \<open>The first \<open>k\<close> rows that match \<open>P\<close> are rewritten by \<open>f\<close>.\<close>

fun update_upto :: "nat \<Rightarrow> ('r \<Rightarrow> bool) \<Rightarrow> ('r \<Rightarrow> 'r) \<Rightarrow> 'r list \<Rightarrow> 'r list" where
  "update_upto 0 P f rows = rows"
| "update_upto (Suc k) P f [] = []"
| "update_upto (Suc k) P f (r # rows) =
     (if P r then f r # update_upto k P f rows else r # update_upto (Suc k) P f rows)"

definition update_all :: "('r \<Rightarrow> bool) \<Rightarrow> ('r \<Rightarrow> 'r) \<Rightarrow> 'r list \<Rightarrow> 'r list" where
  "update_all P f rows = map (\<lambda>r. if P r then f r else r) rows"

text \<open>
  The calls take the collection as its selector and its update function in \<open>world\<close>.
  \<open>find_one\<close> gives the first match in the order of the collection; \<open>update_one\<close> and
  \<open>update_many\<close> give the number of rows matched.
\<close>

definition find_one :: "(world \<Rightarrow> 'r list) \<Rightarrow> ('r \<Rightarrow> bool) \<Rightarrow> 'r option act" where
  "find_one sel P = (\<lambda>w. case take_fault w of
       (NoFault, w1) \<Rightarrow> (Inr (find P (sel w1)), w1)
     | (Fail k, w1) \<Rightarrow> (Inl StoreError, w1))"

definition count_documents :: "(world \<Rightarrow> 'r list) \<Rightarrow> ('r \<Rightarrow> bool) \<Rightarrow> nat act" where
  "count_documents sel P = (\<lambda>w. case take_fault w of
       (NoFault, w1) \<Rightarrow> (Inr (length (filter P (sel w1))), w1)
     | (Fail k, w1) \<Rightarrow> (Inl StoreError, w1))"

definition update_one ::
  "(world \<Rightarrow> 'r list) \<Rightarrow> ('r list \<Rightarrow> world \<Rightarrow> world) \<Rightarrow> ('r \<Rightarrow> bool) \<Rightarrow> ('r \<Rightarrow> 'r) \<Rightarrow> nat act" where
  "update_one sel put P f = (\<lambda>w. case take_fault w of
       (NoFault, w1) \<Rightarrow> (Inr (if list_ex P (sel w1) then 1 else 0),
                         put (update_upto 1 P f (sel w1)) w1)
     | (Fail k, w1) \<Rightarrow> (Inl StoreError, put (update_upto (min k 1) P f (sel w1)) w1))"

definition update_many ::
  "(world \<Rightarrow> 'r list) \<Rightarrow> ('r list \<Rightarrow> world \<Rightarrow> world) \<Rightarrow> ('r \<Rightarrow> bool) \<Rightarrow> ('r \<Rightarrow> 'r) \<Rightarrow> nat act" where
  "update_many sel put P f = (\<lambda>w. case take_fault w of
       (NoFault, w1) \<Rightarrow> (Inr (length (filter P (sel w1))), put (update_all P f (sel w1)) w1)
     | (Fail k, w1) \<Rightarrow> (Inl StoreError, put (update_upto k P f (sel w1)) w1))"

text \<open>
  \<open>update_many\<close> for a caller that reads \<open>result.modified_count\<close>: the number of
  matched rows that the update changes.
\<close>

definition update_many_modified ::
  "(world \<Rightarrow> 'r list) \<Rightarrow> ('r list \<Rightarrow> world \<Rightarrow> world) \<Rightarrow> ('r \<Rightarrow> bool) \<Rightarrow> ('r \<Rightarrow> 'r) \<Rightarrow> nat act" where
  "update_many_modified sel put P f = (\<lambda>w. case take_fault w of
       (NoFault, w1) \<Rightarrow> (Inr (length (filter (\<lambda>r. P r \<and> f r \<noteq> r) (sel w1))),
                         put (update_all P f (sel w1)) w1)
     | (Fail k, w1) \<Rightarrow> (Inl StoreError, put (update_upto k P f (sel w1)) w1))"

definition insert_one ::
  "(world \<Rightarrow> 'r list) \<Rightarrow> ('r list \<Rightarrow> world \<Rightarrow> world) \<Rightarrow> 'r \<Rightarrow> unit act" where
  "insert_one sel put r = (\<lambda>w. case take_fault w of
       (NoFault, w1) \<Rightarrow> (Inr (), put (sel w1 @ [r]) w1)
     | (Fail k, w1) \<Rightarrow> (Inl StoreError, if k = 0 then w1 else put (sel w1 @ [r]) w1))"

definition put_assignments :: "MemberBotAssignment list \<Rightarrow> world \<Rightarrow> world" where
  "put_assignments rows w = w\<lparr>assignments := rows\<rparr>"

definition put_campaigns :: "Campaign list \<Rightarrow> world \<Rightarrow> world" where
  "put_campaigns rows w = w\<lparr>campaigns := rows\<rparr>"

definition put_campaign_targets :: "CampaignTarget list \<Rightarrow> world \<Rightarrow> world" where
  "put_campaign_targets rows w = w\<lparr>campaign_targets := rows\<rparr>"

definition put_sends :: "Send list \<Rightarrow> world \<Rightarrow> world" where
  "put_sends rows w = w\<lparr>sends := rows\<rparr>"

subsection \<open>The random module\<close>

definition next_random :: "nat list \<Rightarrow> nat \<times> nat list" where
  "next_random rs = (case rs of [] \<Rightarrow> (0, []) | r # rs1 \<Rightarrow> (r, rs1))"

text \<open>\<open>random.choice\<close>: \<open>IndexError\<close> on an empty sequence.\<close>

definition random_choice :: "'a list \<Rightarrow> 'a act" where
  "random_choice xs = (\<lambda>w.
     if xs = [] then (Inl IndexError, w)
     else (case next_random (rnd w) of (r, rs) \<Rightarrow> (Inr (xs ! (r mod length xs)), w\<lparr>rnd := rs\<rparr>)))"

text \<open>
  \<open>random.shuffle\<close>: for \<open>i\<close> from the last index down to 1, swap the entries at \<open>i\<close> and
  at a random \<open>j \<le> i\<close>.
\<close>

fun shuffle_from :: "nat \<Rightarrow> 'a list \<Rightarrow> nat list \<Rightarrow> 'a list \<times> nat list" where
  "shuffle_from 0 xs rs = (xs, rs)"
| "shuffle_from (Suc i) xs rs =
     (case next_random rs of (r, rs1) \<Rightarrow>
        let j = r mod (Suc (Suc i))
        in shuffle_from i (xs[Suc i := xs ! j, j := xs ! Suc i]) rs1)"

definition random_shuffle :: "'a list \<Rightarrow> 'a list act" where
  "random_shuffle xs = (\<lambda>w.
     case shuffle_from (length xs - 1) xs (rnd w) of (ys, rs) \<Rightarrow> (Inr ys, w\<lparr>rnd := rs\<rparr>))"


section \<open>member\_assignment.py\<close>

text \<open>\<open>any(bot['bot_id'] == b for bot in available_bots)\<close>\<close>

definition is_available :: "string \<Rightarrow> bot list \<Rightarrow> bool" where
  "is_available b available_bots = list_ex (\<lambda>bot. bot_id bot = b) available_bots"

text \<open>
  \<open>min(xs, key=key)\<close>: the first entry with the least key; \<open>ValueError\<close> on the empty
  list.
\<close>

fun min_from :: "('a \<Rightarrow> nat) \<Rightarrow> 'a \<Rightarrow> 'a list \<Rightarrow> 'a" where
  "min_from key best [] = best"
| "min_from key best (x # xs) = min_from key (if key x < key best then x else best) xs"

definition py_min_by :: "('a \<Rightarrow> nat) \<Rightarrow> 'a list \<Rightarrow> 'a act" where
  "py_min_by key xs = (case xs of [] \<Rightarrow> raise ValueError | x # ys \<Rightarrow> ret (min_from key x ys))"

text \<open>
  The counting loop of \<open>_create_new_assignment\<close>: one \<open>count_documents\<close> per available
  bot, into the dictionary \<open>bot_assignment_counts\<close>.
\<close>

fun count_assignments :: "string \<Rightarrow> bot list \<Rightarrow> (string \<rightharpoonup> nat) \<Rightarrow> (string \<rightharpoonup> nat) act" where
  "count_assignments g [] counts w = (Inr counts, w)"
| "count_assignments g (b # bs) counts w =
     (case count_documents assignments
             (\<lambda>r. guild_id r = g \<and> assigned_bot_id r = bot_id b \<and> is_active r) w of
        (Inl e, w1) \<Rightarrow> (Inl e, w1)
      | (Inr n, w1) \<Rightarrow> count_assignments g bs (counts(bot_id b \<mapsto> n)) w1)"

text \<open>\<open>bot_assignment_counts.get(bot['bot_id'], 0)\<close>\<close>

definition count_of :: "(string \<rightharpoonup> nat) \<Rightarrow> bot \<Rightarrow> nat" where
  "count_of counts b = (case counts (bot_id b) of None \<Rightarrow> 0 | Some n \<Rightarrow> n)"

text \<open>The key that the new document gets: one more than the largest key in use.\<close>

definition fresh_id :: "MemberBotAssignment list \<Rightarrow> nat" where
  "fresh_id rows = Suc (fold max (map assignment_id rows) 0)"

definition create_new_assignment :: "string \<Rightarrow> string \<Rightarrow> bot list \<Rightarrow> string option act" where
  "create_new_assignment g u available_bots =
     (if available_bots = [] then ret None
      else try_except
        (await get_collection (\<lambda>_.
         await (count_assignments g available_bots Map.empty) (\<lambda>bot_assignment_counts.
         await (py_min_by (count_of bot_assignment_counts) available_bots) (\<lambda>selected_bot.
         await (random_shuffle
                  (filter (\<lambda>b. b \<noteq> bot_id selected_bot) (map bot_id available_bots)))
               (\<lambda>fallback_bots.
         await utcnow (\<lambda>t.
         await (update_many assignments put_assignments
                  (\<lambda>r. guild_id r = g \<and> user_id r = u) (\<lambda>r. r\<lparr>is_active := False\<rparr>)) (\<lambda>_.
         await (\<lambda>w. insert_one assignments put_assignments
                  \<lparr>assignment_id = fresh_id (assignments w), guild_id = g, user_id = u,
                   assigned_bot_id = bot_id selected_bot, assigned_at = t, last_dm_at = Some t,
                   total_dms_sent = 1, assignment_reason = ''new_assignment'',
                   fallback_bot_ids = take 3 fallback_bots, is_active = True,
                   updated_at = t\<rparr> w) (\<lambda>_.
         ret (Some (bot_id selected_bot))))))))))
        (\<lambda>e. await (random_choice available_bots) (\<lambda>b. ret (Some (bot_id b)))))"

text \<open>The \<open>try\<close> block of \<open>get_or_create_assignment\<close>.\<close>

definition get_or_create_body :: "string \<Rightarrow> string \<Rightarrow> bot list \<Rightarrow> string option act" where
  "get_or_create_body g u available_bots =
     await get_collection (\<lambda>_.
     await (find_one assignments (\<lambda>r. guild_id r = g \<and> user_id r = u \<and> is_active r))
       (\<lambda>existing_assignment.
          case existing_assignment of
            None \<Rightarrow> create_new_assignment g u available_bots
          | Some ex \<Rightarrow>
              if is_available (assigned_bot_id ex) available_bots then
                await utcnow (\<lambda>t.
                await (update_one assignments put_assignments
                         (\<lambda>r. assignment_id r = assignment_id ex)
                         (\<lambda>r. r\<lparr>last_dm_at := Some t, updated_at := t\<rparr>)) (\<lambda>_.
                ret (Some (assigned_bot_id ex))))
              else
                (case find (\<lambda>fb. is_available fb available_bots) (fallback_bot_ids ex) of
                   Some fallback_bot_id \<Rightarrow>
                     await utcnow (\<lambda>t.
                     await (update_one assignments put_assignments
                              (\<lambda>r. assignment_id r = assignment_id ex)
                              (\<lambda>r. r\<lparr>assigned_bot_id := fallback_bot_id, last_dm_at := Some t,
                                     updated_at := t, assignment_reason := ''fallback_used'',
                                     total_dms_sent := total_dms_sent r + 1\<rparr>)) (\<lambda>_.
                     ret (Some fallback_bot_id)))
                 | None \<Rightarrow> create_new_assignment g u available_bots)))"

definition get_or_create_assignment :: "string \<Rightarrow> string \<Rightarrow> bot list \<Rightarrow> string option act" where
  "get_or_create_assignment g u available_bots =
     try_except (get_or_create_body g u available_bots)
       (\<lambda>e. case available_bots of [] \<Rightarrow> ret None | b # bs \<Rightarrow> ret (Some (bot_id b)))"

definition reassign_bot_members :: "string \<Rightarrow> string \<Rightarrow> string \<Rightarrow> nat act" where
  "reassign_bot_members old_bot_id new_bot_id g =
     try_except
       (await get_collection (\<lambda>_.
        await utcnow (\<lambda>t.
        update_many_modified assignments put_assignments
          (\<lambda>r. guild_id r = g \<and> assigned_bot_id r = old_bot_id \<and> is_active r)
          (\<lambda>r. r\<lparr>assigned_bot_id := new_bot_id,
                 assignment_reason := ''bot_failure_reassignment'', updated_at := t\<rparr>))))
       (\<lambda>e. ret 0)"

text \<open>
  A history of the two operations, run one after the other. Between two operations the
  clock may have moved: each step carries the time at which it runs.
\<close>

datatype operation =
    GetOrCreate string string "bot list" real
  | Reassign string string string real

definition at_time :: "real \<Rightarrow> world \<Rightarrow> world" where
  "at_time t w = w\<lparr>clk := (clk w)\<lparr>now := t\<rparr>\<rparr>"

fun step :: "operation \<Rightarrow> world \<Rightarrow> world" where
  "step (GetOrCreate g u bots t) w = snd (get_or_create_assignment g u bots (at_time t w))"
| "step (Reassign old new g t) w = snd (reassign_bot_members old new g (at_time t w))"

definition run :: "operation list \<Rightarrow> world \<Rightarrow> world" where
  "run ops w = fold step ops w"

text \<open>At most one active row for each (guild, member).\<close>

definition one_active :: "MemberBotAssignment list \<Rightarrow> bool" where
  "one_active rows =
     (\<forall>g u. length (filter (\<lambda>r. guild_id r = g \<and> user_id r = u \<and> is_active r) rows) \<le> 1)"


subsection \<open>Examples\<close>

text \<open>Worlds, bots and documents used in the examples.\<close>

definition online_world :: world where
  "online_world = \<lparr>connected = True, faults = [], rnd = [], clk = \<lparr>now = 0, sleeps = []\<rparr>,
     assignments = [], campaigns = [], campaign_targets = [], sends = [],
     active_campaigns = Map.empty, campaign_tasks = Map.empty, cancelled_tasks = [],
     active_workers = Map.empty\<rparr>"

definition offline_world :: world where
  "offline_world = online_world\<lparr>connected := False\<rparr>"

definition bot1 :: bot where "bot1 = \<lparr>bot_id = ''b1'', bot_name = ''one'', queue_size = 0\<rparr>"

definition bot2 :: bot where "bot2 = \<lparr>bot_id = ''b2'', bot_name = ''two'', queue_size = 3\<rparr>"

definition history :: "operation list" where
  "history = [GetOrCreate ''g'' ''u'' [bot1] 1, GetOrCreate ''g'' ''u'' [bot2] 2,
              Reassign ''b2'' ''b1'' ''g'' 3]"

definition stored_row :: MemberBotAssignment where
  "stored_row = \<lparr>assignment_id = 7, guild_id = ''g'', user_id = ''u'', assigned_bot_id = ''b1'',
     assigned_at = 1, last_dm_at = Some 1, total_dms_sent = 4,
     assignment_reason = ''new_assignment'', fallback_bot_ids = [''b3'', ''b2''],
     is_active = True, updated_at = 1\<rparr>"

definition stored_world :: world where
  "stored_world = online_world\<lparr>assignments := [stored_row], clk := \<lparr>now = 9, sleeps = []\<rparr>\<rparr>"

text \<open>The update document of the fallback branch of \<open>get_or_create_assignment\<close>.\<close>

definition promote :: "string \<Rightarrow> real \<Rightarrow> MemberBotAssignment \<Rightarrow> MemberBotAssignment" where
  "promote fb t r = r\<lparr>assigned_bot_id := fb, last_dm_at := Some t, updated_at := t,
     assignment_reason := ''fallback_used'', total_dms_sent := total_dms_sent r + 1\<rparr>"

section \<open>Properties of the assignment manager\<close>

subsection \<open>Vocabulary of the proofs\<close>

text \<open>
  Hoare triples for coroutines: from a world satisfying \<open>P\<close>, a normal return satisfies
  \<open>Q\<close> and a raise leaves a world satisfying \<open>E\<close>.
\<close>

definition triple ::
  "(world \<Rightarrow> bool) \<Rightarrow> 'a act \<Rightarrow> ('a \<Rightarrow> world \<Rightarrow> bool) \<Rightarrow> (world \<Rightarrow> bool) \<Rightarrow> bool" where
  "triple P m Q E =
     (\<forall>w. P w \<longrightarrow> (case m w of (Inl e, w1) \<Rightarrow> E w1 | (Inr x, w1) \<Rightarrow> Q x w1))"

definition picks :: "bot list \<Rightarrow> string option \<Rightarrow> bool" where
  "picks bots v = (if bots = [] then v = None else v \<in> set (map (\<lambda>b. Some (bot_id b)) bots))"

definition active_for :: "string \<Rightarrow> string \<Rightarrow> MemberBotAssignment \<Rightarrow> bool" where
  "active_for g u r = (guild_id r = g \<and> user_id r = u \<and> is_active r)"

text \<open>The invariant, and the invariant right after the deactivation for (g, u).\<close>

definition assignment_inv :: "world \<Rightarrow> bool" where
  "assignment_inv w = one_active (assignments w)"

definition assignment_inv_none :: "string \<Rightarrow> string \<Rightarrow> world \<Rightarrow> bool" where
  "assignment_inv_none g u w = (assignment_inv w \<and> filter (active_for g u) (assignments w) = [])"

text \<open>A coroutine that leaves the assignments collection alone.\<close>

definition keeps :: "'a act \<Rightarrow> bool" where
  "keeps m = (\<forall>w. assignments (snd (m w)) = assignments w)"

text \<open>A store that answers: connected, and no fault ahead.\<close>

definition healthy :: "world \<Rightarrow> bool" where
  "healthy w = (connected w \<and> faults w = [])"

definition resolves_to :: "string \<Rightarrow> string \<Rightarrow> bot list \<Rightarrow> string \<Rightarrow> world \<Rightarrow> bool" where
  "resolves_to g u bots b w =
     (\<exists>r. find (\<lambda>r. guild_id r = g \<and> user_id r = u \<and> is_active r) (assignments w) = Some r \<and>
          (if is_available (assigned_bot_id r) bots then assigned_bot_id r = b
           else find (\<lambda>fb. is_available fb bots) (fallback_bot_ids r) = Some b))"

subsection \<open>The result of a resolution\<close>

lemma tripleI:
  "(\<And>w. P w \<Longrightarrow> (case m w of (Inl e, w1) \<Rightarrow> E w1 | (Inr x, w1) \<Rightarrow> Q x w1)) \<Longrightarrow> triple P m Q E"
  by (simp add: triple_def)

lemma tripleD:
  assumes "triple P m Q E" and "P w"
  shows "m w = (Inr x, w1) \<Longrightarrow> Q x w1" and "m w = (Inl e, w1) \<Longrightarrow> E w1"
  using assms unfolding triple_def by (fastforce split: prod.splits sum.splits)+

lemma triple_ret: "(\<And>w. P w \<Longrightarrow> Q x w) \<Longrightarrow> triple P (ret x) Q E"
  by (simp add: triple_def ret_def)

lemma triple_raise: "(\<And>w. P w \<Longrightarrow> E w) \<Longrightarrow> triple P (raise e) Q E"
  by (simp add: triple_def raise_def)

lemma triple_await:
  assumes "triple P m Q E" and "\<And>x. triple (Q x) (f x) R E"
  shows "triple P (await m f) R E"
  using assms unfolding triple_def await_def
  by (fastforce split: prod.splits sum.splits)

text \<open>
  A coroutine is quiet when it never raises \<open>CancelledError\<close>; then \<open>except Exception\<close>
  catches whatever it raises.
\<close>

definition quiet :: "'a act \<Rightarrow> bool" where
  "quiet m = (\<forall>w w1. m w \<noteq> (Inl CancelledError, w1))"

lemma quiet_ret: "quiet (ret x)"
  by (simp add: quiet_def ret_def)

lemma quiet_raise: "e \<noteq> CancelledError \<Longrightarrow> quiet (raise e)"
  by (simp add: quiet_def raise_def)

lemma quiet_await: "quiet m \<Longrightarrow> (\<And>x. quiet (f x)) \<Longrightarrow> quiet (await m f)"
  unfolding quiet_def await_def by (auto split: prod.splits sum.splits)

lemma quiet_try_except: "quiet m \<Longrightarrow> (\<And>e. quiet (h e)) \<Longrightarrow> quiet (try_except m h)"
  unfolding quiet_def try_except_def by (auto split: prod.splits sum.splits)

lemma quiet_get_collection: "quiet get_collection"
  by (simp add: quiet_def get_collection_def)

lemma quiet_utcnow: "quiet utcnow"
  by (simp add: quiet_def utcnow_def)

lemma quiet_find_one: "quiet (find_one sel P)"
  by (simp add: quiet_def find_one_def split: prod.splits fault.splits)

lemma quiet_count_documents: "quiet (count_documents sel P)"
  by (simp add: quiet_def count_documents_def split: prod.splits fault.splits)

lemma quiet_update_one: "quiet (update_one sel put P f)"
  by (simp add: quiet_def update_one_def split: prod.splits fault.splits)

lemma quiet_update_many: "quiet (update_many sel put P f)"
  by (simp add: quiet_def update_many_def split: prod.splits fault.splits)

lemma quiet_insert_one: "quiet (\<lambda>w. insert_one sel put (row w) w)"
  by (simp add: quiet_def insert_one_def split: prod.splits fault.splits)

lemma quiet_random_choice: "quiet (random_choice xs)"
  by (simp add: quiet_def random_choice_def split: prod.splits)

lemma quiet_random_shuffle: "quiet (random_shuffle xs)"
  by (simp add: quiet_def random_shuffle_def split: prod.splits)

lemma quiet_py_min_by: "quiet (py_min_by key xs)"
  by (cases xs) (simp_all add: py_min_by_def quiet_ret quiet_raise)

lemma count_assignments_not_cancelled:
  "count_assignments g bs counts w \<noteq> (Inl CancelledError, w1)"
proof (induction bs arbitrary: counts w)
  case Nil
  then show ?case by simp
next
  case (Cons b bs)
  let ?c = "count_documents assignments
             (\<lambda>r. guild_id r = g \<and> assigned_bot_id r = bot_id b \<and> is_active r)"
  obtain r w2 where c: "?c w = (r, w2)" by (cases "?c w")
  show ?case
  proof (cases r)
    case (Inl e)
    then have "e \<noteq> CancelledError"
      using c quiet_count_documents[of assignments] by (auto simp: quiet_def)
    then show ?thesis using Inl by (simp add: c)
  next
    case (Inr n)
    then show ?thesis using Cons.IH by (simp add: c)
  qed
qed

lemma quiet_count_assignments: "quiet (count_assignments g bs counts)"
  by (simp add: quiet_def count_assignments_not_cancelled)

lemmas quiet_intros = quiet_ret quiet_await quiet_try_except quiet_get_collection quiet_utcnow
  quiet_find_one quiet_count_documents quiet_update_one quiet_update_many quiet_insert_one
  quiet_random_choice quiet_random_shuffle quiet_py_min_by quiet_count_assignments

lemma quiet_create_new_assignment: "quiet (create_new_assignment g u bots)"
  unfolding create_new_assignment_def
  by (cases "bots = []") (auto intro!: quiet_intros)

lemma quiet_get_or_create_body: "quiet (get_or_create_body g u bots)"
  unfolding get_or_create_body_def
  by (auto intro!: quiet_intros quiet_create_new_assignment split: option.splits)

lemma triple_try:
  assumes "quiet m" and "triple P m Q E1" and "\<And>e. triple E1 (h e) Q E"
  shows "triple P (try_except m h) Q E"
proof (rule tripleI)
  fix w assume p: "P w"
  obtain r w1 where m: "m w = (r, w1)" by (cases "m w")
  show "case try_except m h w of (Inl e, w1) \<Rightarrow> E w1 | (Inr x, w1) \<Rightarrow> Q x w1"
  proof (cases r)
    case (Inl e)
    then have ne: "e \<noteq> CancelledError" using assms(1) m by (auto simp: quiet_def)
    have "E1 w1" using tripleD(2)[OF assms(2) p] m Inl by simp
    then show ?thesis
      using assms(3)[of e] ne by (simp add: try_except_def m Inl triple_def)
  next
    case (Inr x)
    then show ?thesis
      using tripleD(1)[OF assms(2) p] m by (simp add: try_except_def)
  qed
qed

text \<open>Without that, when the handler keeps what the body keeps on a raise.\<close>

lemma triple_try_same:
  assumes "triple P m Q E" and "\<And>e. triple E (h e) Q E"
  shows "triple P (try_except m h) Q E"
proof (rule tripleI)
  fix w assume p: "P w"
  obtain r w1 where m: "m w = (r, w1)" by (cases "m w")
  show "case try_except m h w of (Inl e, w1) \<Rightarrow> E w1 | (Inr x, w1) \<Rightarrow> Q x w1"
  proof (cases r)
    case (Inl e)
    have "E w1" using tripleD(2)[OF assms(1) p] m Inl by simp
    then show ?thesis
      using assms(2)[of e] by (simp add: try_except_def m Inl triple_def)
  next
    case (Inr x)
    then show ?thesis
      using tripleD(1)[OF assms(1) p] m by (simp add: try_except_def)
  qed
qed

lemma triple_weaken:
  assumes "triple P m Q E" and "\<And>w. P1 w \<Longrightarrow> P w" and "\<And>x w. Q x w \<Longrightarrow> Q1 x w"
    and "\<And>w. E w \<Longrightarrow> E1 w"
  shows "triple P1 m Q1 E1"
  using assms unfolding triple_def by (fastforce split: prod.splits sum.splits)

lemma triple_pure: "(\<phi> \<Longrightarrow> triple (\<lambda>w. True) m Q E) \<Longrightarrow> triple (\<lambda>w. \<phi>) m Q E"
  by (simp add: triple_def)

lemma triple_if:
  assumes "c \<Longrightarrow> triple P m Q E" and "\<not> c \<Longrightarrow> triple P n Q E"
  shows "triple P (if c then m else n) Q E"
  using assms by simp

text \<open>
  What the caller may be handed: nothing when there is no bot, else the id of one of the
  available bots.
\<close>

lemma min_from_in: "min_from key best xs \<in> set (best # xs)"
  by (induction xs arbitrary: best) auto

lemma triple_py_min_by: "triple (\<lambda>w. True) (py_min_by key xs) (\<lambda>x w. x \<in> set xs) (\<lambda>w. True)"
proof (cases xs)
  case Nil
  then show ?thesis by (simp add: py_min_by_def triple_def raise_def)
next
  case (Cons x ys)
  then show ?thesis using min_from_in[of key x ys] by (simp add: py_min_by_def triple_def ret_def)
qed

lemma triple_random_choice:
  "xs \<noteq> [] \<Longrightarrow> triple (\<lambda>w. True) (random_choice xs) (\<lambda>x w. x \<in> set xs) (\<lambda>w. False)"
  by (simp add: triple_def random_choice_def split: prod.splits)

lemma triple_any: "triple (\<lambda>w. True) m (\<lambda>x w. True) (\<lambda>w. True)"
  by (simp add: triple_def split: prod.splits sum.splits)

lemma create_new_assignment_picks:
  "triple (\<lambda>w. True) (create_new_assignment g u bots) (\<lambda>v w. picks bots v) (\<lambda>w. False)"
proof (cases "bots = []")
  case True
  then show ?thesis by (simp add: create_new_assignment_def triple_ret picks_def)
next
  case False
  have body: "triple (\<lambda>w. True)
     (await get_collection (\<lambda>_.
         await (count_assignments g bots Map.empty) (\<lambda>bot_assignment_counts.
         await (py_min_by (count_of bot_assignment_counts) bots) (\<lambda>selected_bot.
         await (random_shuffle
                  (filter (\<lambda>b. b \<noteq> bot_id selected_bot) (map bot_id bots)))
               (\<lambda>fallback_bots.
         await utcnow (\<lambda>t.
         await (update_many assignments put_assignments
                  (\<lambda>r. guild_id r = g \<and> user_id r = u) (\<lambda>r. r\<lparr>is_active := False\<rparr>)) (\<lambda>_.
         await (\<lambda>w. insert_one assignments put_assignments
                  \<lparr>assignment_id = fresh_id (assignments w), guild_id = g, user_id = u,
                   assigned_bot_id = bot_id selected_bot, assigned_at = t, last_dm_at = Some t,
                   total_dms_sent = 1, assignment_reason = ''new_assignment'',
                   fallback_bot_ids = take 3 fallback_bots, is_active = True,
                   updated_at = t\<rparr> w) (\<lambda>_.
         ret (Some (bot_id selected_bot))))))))))
     (\<lambda>v w. picks bots v) (\<lambda>w. True)"
    apply (rule triple_await[OF triple_any])
    apply (rule triple_await[OF triple_any])
    apply (rule triple_await[OF triple_py_min_by])
    apply (rule triple_pure)
    apply (rule triple_await[OF triple_any])
    apply (rule triple_await[OF triple_any])
    apply (rule triple_await[OF triple_any])
    apply (rule triple_await[OF triple_any])
    apply (rule triple_ret)
    apply (auto simp: picks_def)
    done
  have handler: "triple (\<lambda>w. True)
       (await (random_choice bots) (\<lambda>b. ret (Some (bot_id b)))) (\<lambda>v w. picks bots v) (\<lambda>w. False)" for e :: exn
    apply (rule triple_await[OF triple_random_choice[OF False]])
    apply (rule triple_ret)
    using False apply (auto simp: picks_def)
    done
  show ?thesis
    unfolding create_new_assignment_def using False
    by (simp add: triple_try[OF _ body handler] quiet_intros)
qed

lemma is_available_picks: "is_available b bots \<Longrightarrow> picks bots (Some b)"
  by (auto simp: is_available_def picks_def list_ex_iff)

lemma find_available: "find (\<lambda>fb. is_available fb bots) fbs = Some fb \<Longrightarrow> is_available fb bots"
  by (auto simp: find_Some_iff)

lemma get_or_create_body_picks:
  "triple (\<lambda>w. True) (get_or_create_body g u bots) (\<lambda>v w. picks bots v) (\<lambda>w. True)"
  unfolding get_or_create_body_def
  apply (rule triple_await[OF triple_any])
  apply (rule triple_await[OF triple_any])
  subgoal for x existing
    apply (cases existing)
     apply (simp add: triple_weaken[OF create_new_assignment_picks])
    subgoal for ex
      apply (cases "is_available (assigned_bot_id ex) bots")
       apply simp
       apply (rule triple_await[OF triple_any])
       apply (rule triple_await[OF triple_any])
       apply (rule triple_ret)
       apply (simp add: is_available_picks)
      apply (cases "find (\<lambda>fb. is_available fb bots) (fallback_bot_ids ex)")
       apply (simp add: triple_weaken[OF create_new_assignment_picks])
      apply simp
      apply (rule triple_await[OF triple_any])
      apply (rule triple_await[OF triple_any])
      apply (rule triple_ret)
      apply (simp add: is_available_picks find_available)
      done
    done
  done

lemma get_or_create_assignment_picks:
  "triple (\<lambda>w. True) (get_or_create_assignment g u bots) (\<lambda>v w. picks bots v) (\<lambda>w. False)"
  unfolding get_or_create_assignment_def
  apply (rule triple_try[OF quiet_get_or_create_body get_or_create_body_picks])
  apply (cases bots)
   apply (simp_all add: triple_ret picks_def)
  done

text \<open>
  C10. \<open>get_or_create_assignment\<close> never passes an exception to its caller, whatever
  the store does (any faults, connected or not) and whatever \<open>random\<close> gives. It returns
  \<open>None\<close> exactly when \<open>available_bots\<close> is empty, and otherwise the \<open>bot_id\<close> of an
  entry of \<open>available_bots\<close>.
\<close>

theorem get_or_create_assignment_never_raises:
  "\<exists>v. fst (get_or_create_assignment g u available_bots w) = Inr v \<and>
        (v = None \<longleftrightarrow> available_bots = []) \<and>
        (available_bots \<noteq> [] \<longrightarrow> (\<exists>b \<in> set available_bots. v = Some (bot_id b)))"
proof -
  obtain r w1 where r: "get_or_create_assignment g u available_bots w = (r, w1)"
    by (cases "get_or_create_assignment g u available_bots w")
  obtain v where "r = Inr v" "picks available_bots v"
    using tripleD[OF get_or_create_assignment_picks, of g u available_bots w _ w1] r
    by (cases r) auto
  moreover have "fst (get_or_create_assignment g u available_bots w) = r"
    by (simp add: r)
  ultimately show ?thesis
    by (cases "available_bots = []") (auto simp: picks_def)
qed

text \<open>
  C10, with the store not connected: every store access raises, and the caller still gets
  the first of two available bots, or \<open>None\<close> when there is none.
\<close>

theorem get_or_create_assignment_never_raises_witness:
  "fst (get_or_create_assignment ''g'' ''u'' [bot1, bot2] offline_world) = Inr (Some ''b1'') \<and>
   fst (get_or_create_assignment ''g'' ''u'' [] offline_world) = Inr None"
proof -
  have "fst (get_or_create_assignment ''g'' ''u'' [bot1, bot2] offline_world) = Inr (Some ''b1'')"
    using get_or_create_assignment_never_raises[of "''g''" "''u''" "[bot1, bot2]" offline_world]
    by (simp add: bot1_def bot2_def offline_world_def online_world_def
        get_or_create_assignment_def get_or_create_body_def try_except_def await_def
        get_collection_def ret_def)
  moreover have "fst (get_or_create_assignment ''g'' ''u'' [] offline_world) = Inr None"
    using get_or_create_assignment_never_raises[of "''g''" "''u''" "[]" offline_world]
    by auto
  ultimately show ?thesis by simp
qed

subsection \<open>At most one active row\<close>

lemma active_for_eq:
  "active_for g u = (\<lambda>r. guild_id r = g \<and> user_id r = u \<and> is_active r)"
  by (simp add: active_for_def fun_eq_iff)

lemma one_active_iff: "one_active rows = (\<forall>g u. length (filter (active_for g u) rows) \<le> 1)"
  by (simp add: one_active_def active_for_eq)

lemma triple_keeps: "keeps m \<Longrightarrow> triple assignment_inv m (\<lambda>x. assignment_inv) assignment_inv"
proof (rule tripleI)
  fix w
  assume k: "keeps m" and i: "assignment_inv w"
  obtain r w1 where m: "m w = (r, w1)" by (cases "m w")
  have "assignments w1 = assignments w"
    using k m by (auto simp: keeps_def dest: spec[of _ w])
  then have "assignment_inv w1" using i by (simp add: assignment_inv_def)
  then show "case m w of (Inl e, w1) \<Rightarrow> assignment_inv w1 | (Inr x, w1) \<Rightarrow> assignment_inv w1"
    by (simp add: m split: sum.splits)
qed

lemma take_fault_assignments [simp]: "assignments (snd (take_fault w)) = assignments w"
  by (simp add: take_fault_def split: list.splits)

lemma take_fault_eqD: "take_fault w = (f, w1) \<Longrightarrow> assignments w1 = assignments w"
  using take_fault_assignments[of w] by simp

lemma keepsD: "keeps m \<Longrightarrow> m w = (r, w1) \<Longrightarrow> assignments w1 = assignments w"
  by (auto simp: keeps_def dest: spec[of _ w])

lemma keeps_get_collection: "keeps get_collection"
  by (simp add: keeps_def get_collection_def)

lemma keeps_utcnow: "keeps utcnow"
  by (simp add: keeps_def utcnow_def)

lemma keeps_find_one: "keeps (find_one sel P)"
  by (auto simp: keeps_def find_one_def split: prod.splits fault.splits dest: take_fault_eqD)

lemma keeps_count_documents: "keeps (count_documents sel P)"
  by (auto simp: keeps_def count_documents_def split: prod.splits fault.splits dest: take_fault_eqD)

lemma count_assignments_assignments:
  "assignments (snd (count_assignments g bs counts w)) = assignments w"
proof (induction bs arbitrary: counts w)
  case Nil
  then show ?case by simp
next
  case (Cons b bs)
  let ?c = "count_documents assignments
             (\<lambda>r. guild_id r = g \<and> assigned_bot_id r = bot_id b \<and> is_active r)"
  obtain r w1 where c: "?c w = (r, w1)" by (cases "?c w")
  have a: "assignments w1 = assignments w"
    using keepsD[OF keeps_count_documents c] .
  show ?case
    using Cons.IH[of _ w1] a by (cases r) (simp_all add: c)
qed

lemma keeps_count_assignments: "keeps (count_assignments g bs counts)"
  by (simp add: keeps_def count_assignments_assignments)

lemma keeps_py_min_by: "keeps (py_min_by key xs)"
  by (cases xs) (simp_all add: keeps_def py_min_by_def raise_def ret_def)

lemma keeps_random_shuffle: "keeps (random_shuffle xs)"
  by (simp add: keeps_def random_shuffle_def split: prod.splits)

lemma keeps_random_choice: "keeps (random_choice xs)"
  by (simp add: keeps_def random_choice_def split: prod.splits)

text \<open>What the updates of the two operations do to the active rows.\<close>

lemma filter_update_upto_same:
  assumes "\<And>r. Q (f r) = Q r"
  shows "map Q (update_upto k P f rows) = map Q rows"
  using assms by (induction k P f rows rule: update_upto.induct) simp_all

lemma length_filter_map: "length (filter Q rows) = length (filter id (map Q rows))"
  by (induction rows) auto

lemma one_active_update_upto:
  assumes "\<And>r g u. active_for g u (f r) = active_for g u r"
  shows "one_active (update_upto k P f rows) = one_active rows"
  unfolding one_active_iff
  by (subst (1 2) length_filter_map) (simp add: filter_update_upto_same assms)

lemma one_active_update_all:
  assumes "\<And>r g u. active_for g u (f r) = active_for g u r"
  shows "one_active (update_all P f rows) = one_active rows"
proof -
  have "map (active_for g u) (update_all P f rows) = map (active_for g u) rows" for g u
    by (induction rows) (simp_all add: update_all_def assms)
  then show ?thesis
    unfolding one_active_iff by (subst (1 2) length_filter_map) simp
qed

lemma deactivate_upto_le:
  "length (filter (active_for g u) (update_upto k P (\<lambda>r. r\<lparr>is_active := False\<rparr>) rows))
     \<le> length (filter (active_for g u) rows)"
proof (induction k P "\<lambda>r::MemberBotAssignment. r\<lparr>is_active := False\<rparr>" rows rule: update_upto.induct)
  case (3 k P r rows)
  then show ?case by (auto simp: active_for_def le_SucI)
qed simp_all

lemma one_active_deactivate_upto:
  "one_active rows \<Longrightarrow> one_active (update_upto k P (\<lambda>r. r\<lparr>is_active := False\<rparr>) rows)"
  unfolding one_active_iff using deactivate_upto_le le_trans by blast

lemma deactivate_all_le:
  "length (filter (active_for g u) (update_all P (\<lambda>r. r\<lparr>is_active := False\<rparr>) rows))
     \<le> length (filter (active_for g u) rows)"
  by (induction rows) (auto simp: update_all_def active_for_def le_SucI)

lemma deactivate_all_none:
  "filter (active_for g u)
     (update_all (\<lambda>r. guild_id r = g \<and> user_id r = u) (\<lambda>r. r\<lparr>is_active := False\<rparr>) rows) = []"
  by (induction rows) (auto simp: update_all_def active_for_def)

lemma one_active_deactivate_all:
  "one_active rows \<Longrightarrow> one_active (update_all P (\<lambda>r. r\<lparr>is_active := False\<rparr>) rows)"
  unfolding one_active_iff using deactivate_all_le le_trans by blast

lemma one_active_insert:
  assumes "one_active rows" and "filter (active_for g u) rows = []"
    and "guild_id r = g" and "user_id r = u"
  shows "one_active (rows @ [r])"
  unfolding one_active_iff
proof (intro allI)
  fix g1 u1
  show "length (filter (active_for g1 u1) (rows @ [r])) \<le> 1"
  proof (cases "g1 = g \<and> u1 = u")
    case True
    then show ?thesis using assms(2) by simp
  next
    case False
    then have "\<not> active_for g1 u1 r" using assms(3,4) by (auto simp: active_for_def)
    then show ?thesis using assms(1) by (simp add: one_active_iff)
  qed
qed

text \<open>The store calls, with or without a fault, and the invariant.\<close>

lemma inv_take_fault: "take_fault w = (f, w1) \<Longrightarrow> assignment_inv w1 = assignment_inv w"
  by (simp add: assignment_inv_def take_fault_eqD)

lemma triple_update_one_inv:
  assumes "\<And>r g u. active_for g u (f r) = active_for g u r"
  shows "triple assignment_inv (update_one assignments put_assignments P f) (\<lambda>x. assignment_inv) assignment_inv"
proof (rule tripleI)
  fix w assume i: "assignment_inv w"
  obtain ft w1 where t: "take_fault w = (ft, w1)" by (cases "take_fault w")
  have "one_active (assignments w1)" using i inv_take_fault[OF t] by (simp add: assignment_inv_def)
  then have "assignment_inv (put_assignments (update_upto k P f (assignments w1)) w1)" for k
    by (simp add: assignment_inv_def put_assignments_def one_active_update_upto[OF assms])
  then show "case update_one assignments put_assignments P f w of
      (Inl e, w1) \<Rightarrow> assignment_inv w1 | (Inr x, w1) \<Rightarrow> assignment_inv w1"
    by (cases ft) (simp_all add: update_one_def t)
qed

lemma triple_update_many_inv:
  assumes "\<And>r g u. active_for g u (f r) = active_for g u r"
  shows "triple assignment_inv (update_many assignments put_assignments P f) (\<lambda>x. assignment_inv) assignment_inv"
proof (rule tripleI)
  fix w assume i: "assignment_inv w"
  obtain ft w1 where t: "take_fault w = (ft, w1)" by (cases "take_fault w")
  have o: "one_active (assignments w1)" using i inv_take_fault[OF t] by (simp add: assignment_inv_def)
  have "assignment_inv (put_assignments (update_upto k P f (assignments w1)) w1)" for k
    using o by (simp add: assignment_inv_def put_assignments_def one_active_update_upto[OF assms])
  moreover have "assignment_inv (put_assignments (update_all P f (assignments w1)) w1)"
    using o by (simp add: assignment_inv_def put_assignments_def one_active_update_all[OF assms])
  ultimately show "case update_many assignments put_assignments P f w of
      (Inl e, w1) \<Rightarrow> assignment_inv w1 | (Inr x, w1) \<Rightarrow> assignment_inv w1"
    by (cases ft) (simp_all add: update_many_def t)
qed

lemma triple_deactivate:
  "triple assignment_inv
     (update_many assignments put_assignments (\<lambda>r. guild_id r = g \<and> user_id r = u)
        (\<lambda>r. r\<lparr>is_active := False\<rparr>))
     (\<lambda>x. assignment_inv_none g u) assignment_inv"
proof (rule tripleI)
  fix w assume i: "assignment_inv w"
  let ?P = "\<lambda>r. guild_id r = g \<and> user_id r = u"
  let ?f = "\<lambda>r::MemberBotAssignment. r\<lparr>is_active := False\<rparr>"
  obtain ft w1 where t: "take_fault w = (ft, w1)" by (cases "take_fault w")
  have o: "one_active (assignments w1)" using i inv_take_fault[OF t] by (simp add: assignment_inv_def)
  have "assignment_inv (put_assignments (update_upto k ?P ?f (assignments w1)) w1)" for k
    using o by (simp add: assignment_inv_def put_assignments_def one_active_deactivate_upto)
  moreover have "assignment_inv_none g u (put_assignments (update_all ?P ?f (assignments w1)) w1)"
    using o
    by (simp add: assignment_inv_none_def assignment_inv_def put_assignments_def one_active_deactivate_all
        deactivate_all_none)
  ultimately show "case update_many assignments put_assignments ?P ?f w of
      (Inl e, w1) \<Rightarrow> assignment_inv w1 | (Inr x, w1) \<Rightarrow> assignment_inv_none g u w1"
    by (cases ft) (simp_all add: update_many_def t)
qed

lemma triple_insert:
  assumes "\<And>w. guild_id (row w) = g" and "\<And>w. user_id (row w) = u"
  shows "triple (assignment_inv_none g u) (\<lambda>w. insert_one assignments put_assignments (row w) w)
           (\<lambda>x. assignment_inv) assignment_inv"
proof (rule tripleI)
  fix w assume i: "assignment_inv_none g u w"
  obtain ft w1 where t: "take_fault w = (ft, w1)" by (cases "take_fault w")
  have a: "assignments w1 = assignments w" using take_fault_eqD[OF t] .
  have o: "one_active (assignments w1)" "filter (active_for g u) (assignments w1) = []"
    using i by (simp_all add: assignment_inv_none_def assignment_inv_def a)
  have "assignment_inv w1" using o by (simp add: assignment_inv_def)
  moreover have "assignment_inv (put_assignments (assignments w1 @ [row w]) w1)"
    using one_active_insert[OF o assms] by (simp add: assignment_inv_def put_assignments_def)
  ultimately show "case insert_one assignments put_assignments (row w) w of
      (Inl e, w1) \<Rightarrow> assignment_inv w1 | (Inr x, w1) \<Rightarrow> assignment_inv w1"
    by (cases ft) (simp_all add: insert_one_def t)
qed

lemma create_new_assignment_inv:
  "triple assignment_inv (create_new_assignment g u bots) (\<lambda>x. assignment_inv) assignment_inv"
proof (cases "bots = []")
  case True
  then show ?thesis by (simp add: create_new_assignment_def triple_ret)
next
  case False
  show ?thesis
    unfolding create_new_assignment_def using False
    apply simp
    apply (rule triple_try_same)
     apply (rule triple_await[OF triple_keeps[OF keeps_get_collection]])
     apply (rule triple_await[OF triple_keeps[OF keeps_count_assignments]])
     apply (rule triple_await[OF triple_keeps[OF keeps_py_min_by]])
     apply (rule triple_await[OF triple_keeps[OF keeps_random_shuffle]])
     apply (rule triple_await[OF triple_keeps[OF keeps_utcnow]])
     apply (rule triple_await[OF triple_deactivate])
     apply (rule triple_await[OF triple_insert])
       apply simp
      apply simp
     apply (rule triple_ret, assumption)
    apply (rule triple_await[OF triple_keeps[OF keeps_random_choice]])
    apply (rule triple_ret, assumption)
    done
qed

lemma get_or_create_assignment_inv:
  "triple assignment_inv (get_or_create_assignment g u bots) (\<lambda>x. assignment_inv) assignment_inv"
  unfolding get_or_create_assignment_def get_or_create_body_def
  apply (rule triple_try_same)
   apply (rule triple_await[OF triple_keeps[OF keeps_get_collection]])
   apply (rule triple_await[OF triple_keeps[OF keeps_find_one]])
  subgoal for x existing
    apply (cases existing)
     apply (simp add: create_new_assignment_inv)
    subgoal for ex
      apply (cases "is_available (assigned_bot_id ex) bots")
       apply simp
       apply (rule triple_await[OF triple_keeps[OF keeps_utcnow]])
       apply (rule triple_await[OF triple_update_one_inv])
        apply (simp add: active_for_def)
       apply (rule triple_ret, assumption)
      apply (cases "find (\<lambda>fb. is_available fb bots) (fallback_bot_ids ex)")
       apply (simp add: create_new_assignment_inv)
      apply simp
      apply (rule triple_await[OF triple_keeps[OF keeps_utcnow]])
      apply (rule triple_await[OF triple_update_one_inv])
       apply (simp add: active_for_def)
      apply (rule triple_ret, assumption)
      done
    done
  apply (cases bots)
   apply (simp_all add: triple_ret)
  done

lemma update_many_modified_world:
  "snd (update_many_modified sel put P f w) = snd (update_many sel put P f w)"
  by (simp add: update_many_modified_def update_many_def split: prod.splits fault.splits)

lemma triple_update_many_modified_inv:
  assumes "\<And>r g u. active_for g u (f r) = active_for g u r"
  shows "triple assignment_inv (update_many_modified assignments put_assignments P f)
           (\<lambda>x. assignment_inv) assignment_inv"
proof (rule tripleI)
  fix w assume i: "assignment_inv w"
  obtain ft w1 where t: "take_fault w = (ft, w1)" by (cases "take_fault w")
  have o: "one_active (assignments w1)" using i inv_take_fault[OF t] by (simp add: assignment_inv_def)
  have "assignment_inv (put_assignments (update_upto k P f (assignments w1)) w1)" for k
    using o by (simp add: assignment_inv_def put_assignments_def one_active_update_upto[OF assms])
  moreover have "assignment_inv (put_assignments (update_all P f (assignments w1)) w1)"
    using o by (simp add: assignment_inv_def put_assignments_def one_active_update_all[OF assms])
  ultimately show "case update_many_modified assignments put_assignments P f w of
      (Inl e, w1) \<Rightarrow> assignment_inv w1 | (Inr x, w1) \<Rightarrow> assignment_inv w1"
    by (cases ft) (simp_all add: update_many_modified_def t)
qed

lemma reassign_bot_members_inv:
  "triple assignment_inv (reassign_bot_members old new g) (\<lambda>x. assignment_inv) assignment_inv"
  unfolding reassign_bot_members_def
  apply (rule triple_try_same)
   apply (rule triple_await[OF triple_keeps[OF keeps_get_collection]])
   apply (rule triple_await[OF triple_keeps[OF keeps_utcnow]])
   apply (rule triple_update_many_modified_inv)
   apply (simp add: active_for_def)
  apply (rule triple_ret, assumption)
  done

lemma inv_snd:
  assumes t: "triple assignment_inv m (\<lambda>x. assignment_inv) assignment_inv"
    and i: "assignment_inv w"
  shows "assignment_inv (snd (m w))"
proof -
  obtain r w1 where m: "m w = (r, w1)" by (cases "m w")
  show ?thesis
  proof (cases r)
    case (Inl e)
    then show ?thesis using tripleD(2)[OF t i, of e w1] m by simp
  next
    case (Inr x)
    then show ?thesis using tripleD(1)[OF t i, of x w1] m by simp
  qed
qed

lemma inv_at_time [simp]: "assignment_inv (at_time t w) = assignment_inv w"
  by (simp add: assignment_inv_def at_time_def)

lemma step_inv: "assignment_inv w \<Longrightarrow> assignment_inv (step operation w)"
  by (cases operation)
     (simp_all add: inv_snd[OF get_or_create_assignment_inv] inv_snd[OF reassign_bot_members_inv])

lemma run_inv: "assignment_inv w \<Longrightarrow> assignment_inv (run ops w)"
  unfolding run_def by (induction ops arbitrary: w) (simp_all add: step_inv)

lemmas store_defs = get_or_create_assignment_def get_or_create_body_def create_new_assignment_def
  reassign_bot_members_def try_except_def await_def ret_def raise_def get_collection_def
  find_one_def count_documents_def update_one_def update_many_def insert_one_def take_fault_def
  update_many_modified_def
  put_assignments_def utcnow_def random_shuffle_def random_choice_def next_random_def
  py_min_by_def count_of_def fresh_id_def update_all_def is_available_def at_time_def

lemma history_rows: "map (\<lambda>r. (assigned_bot_id r, is_active r)) (assignments (run history online_world))
   = [(''b1'', False), (''b1'', True)]"
  by (simp add: run_def history_def online_world_def bot1_def bot2_def store_defs)

subsection \<open>Runs without a store failure\<close>

lemma healthy_put [simp]: "healthy (put_assignments rows w) = healthy w"
  by (simp add: healthy_def put_assignments_def)

lemma healthy_assignments [simp]: "healthy (w\<lparr>assignments := rows\<rparr>) = healthy w"
  by (simp add: healthy_def)

lemma healthy_rnd [simp]: "healthy (w\<lparr>rnd := rs\<rparr>) = healthy w"
  by (simp add: healthy_def)

lemma healthy_clk [simp]: "healthy (w\<lparr>clk := c\<rparr>) = healthy w"
  by (simp add: healthy_def)

lemma take_fault_healthy: "healthy w \<Longrightarrow> take_fault w = (NoFault, w)"
  by (simp add: healthy_def take_fault_def)

lemma get_collection_healthy: "healthy w \<Longrightarrow> get_collection w = (Inr (), w)"
  by (simp add: healthy_def get_collection_def)

lemma find_one_healthy: "healthy w \<Longrightarrow> find_one sel P w = (Inr (find P (sel w)), w)"
  by (simp add: find_one_def take_fault_healthy)

lemma count_documents_healthy:
  "healthy w \<Longrightarrow> count_documents sel P w = (Inr (length (filter P (sel w))), w)"
  by (simp add: count_documents_def take_fault_healthy)

lemma update_one_healthy:
  "healthy w \<Longrightarrow> update_one assignments put_assignments P f w =
     (Inr (if list_ex P (assignments w) then 1 else 0),
      put_assignments (update_upto 1 P f (assignments w)) w)"
  by (simp add: update_one_def take_fault_healthy)

lemma update_many_healthy:
  "healthy w \<Longrightarrow> update_many assignments put_assignments P f w =
     (Inr (length (filter P (assignments w))),
      put_assignments (update_all P f (assignments w)) w)"
  by (simp add: update_many_def take_fault_healthy)

lemma insert_one_healthy:
  "healthy w \<Longrightarrow> insert_one assignments put_assignments r w =
     (Inr (), put_assignments (assignments w @ [r]) w)"
  by (simp add: insert_one_def take_fault_healthy)

lemma count_assignments_healthy:
  "healthy w \<Longrightarrow> \<exists>counts1. count_assignments g bs counts w = (Inr counts1, w)"
  by (induction bs arbitrary: counts) (simp_all add: count_documents_healthy)

lemma update_upto_none: "\<forall>r \<in> set rows. \<not> P r \<Longrightarrow> update_upto k P f rows = rows"
  by (induction k P f rows rule: update_upto.induct) simp_all

lemma update_upto_distinct:
  "distinct (map key rows) \<Longrightarrow>
   update_upto (Suc k) (\<lambda>r. key r = a) f rows = map (\<lambda>r. if key r = a then f r else r) rows"
proof (induction rows)
  case Nil
  then show ?case by simp
next
  case (Cons r rows)
  show ?case
  proof (cases "key r = a")
    case True
    have "a \<notin> key ` set rows" using True Cons.prems by simp
    then have no: "\<forall>x \<in> set rows. \<not> key x = a" by (auto simp: image_iff)
    then have "update_upto k (\<lambda>r. key r = a) f rows = rows" by (rule update_upto_none)
    moreover have "map (\<lambda>r. if key r = a then f r else r) rows = rows"
      using no by (induction rows) auto
    ultimately show ?thesis using True by simp
  next
    case False
    then show ?thesis using Cons by simp
  qed
qed

lemma find_map_same:
  "(\<And>r. P (h r) = P r) \<Longrightarrow> find P (map h rows) = map_option h (find P rows)"
  by (induction rows) simp_all

lemma find_update_upto:
  assumes "\<And>r. P (f r) = P r"
  shows "\<exists>r. (find P rows = None \<and> find P (update_upto k Q f rows) = None) \<or>
             (find P rows = Some r \<and>
              (find P (update_upto k Q f rows) = Some r \<or>
               find P (update_upto k Q f rows) = Some (f r)))"
  using assms
  by (induction k Q f rows rule: update_upto.induct) (auto split: option.splits)

text \<open>
  C6. Let the store answer without failure and hold distinct document keys. If the member
  has an active assignment \<open>ex\<close> whose primary bot is not in \<open>available_bots\<close>, and
  \<open>fb\<close> is the first bot of \<open>ex\<close>'s stored fallback list that is in \<open>available_bots\<close>,
  then \<open>get_or_create_assignment\<close> returns \<open>fb\<close>, and afterwards the member's active
  assignment is \<open>ex\<close> with \<open>assigned_bot_id = fb\<close> and \<open>total_dms_sent\<close> one higher
  (\<open>promote\<close>); no other document has changed.
\<close>

theorem fallback_becomes_primary:
  assumes "connected w" and "faults w = []"
    and d: "distinct (map assignment_id (assignments w))"
    and ex: "find (\<lambda>r. guild_id r = g \<and> user_id r = u \<and> is_active r) (assignments w) = Some ex"
    and na: "\<not> is_available (assigned_bot_id ex) available_bots"
    and fb: "find (\<lambda>b. is_available b available_bots) (fallback_bot_ids ex) = Some fb"
  shows "\<exists>w1. get_or_create_assignment g u available_bots w = (Inr (Some fb), w1) \<and>
           find (\<lambda>r. guild_id r = g \<and> user_id r = u \<and> is_active r) (assignments w1)
             = Some (promote fb (now (clk w)) ex) \<and>
           assignments w1 =
             map (\<lambda>r. if assignment_id r = assignment_id ex then promote fb (now (clk w)) r else r)
               (assignments w)"
proof -
  let ?P = "\<lambda>r. guild_id r = g \<and> user_id r = u \<and> is_active r"
  let ?h = "\<lambda>r. if assignment_id r = assignment_id ex then promote fb (now (clk w)) r else r"
  have h: "healthy w" using assms(1,2) by (simp add: healthy_def)
  have u: "update_upto (Suc 0) (\<lambda>r. assignment_id r = assignment_id ex)
             (promote fb (now (clk w))) (assignments w) = map ?h (assignments w)"
    using update_upto_distinct[OF d] by simp
  have call: "get_or_create_assignment g u available_bots w =
      (Inr (Some fb), put_assignments (map ?h (assignments w)) w)"
    using h ex na fb u
    by (simp add: get_or_create_assignment_def get_or_create_body_def try_except_def await_def
        ret_def utcnow_def get_collection_healthy find_one_healthy update_one_healthy
        promote_def[abs_def])
  have "find ?P (map ?h (assignments w)) = map_option ?h (find ?P (assignments w))"
    by (rule find_map_same) (simp add: promote_def)
  then have "find ?P (map ?h (assignments w)) = Some (promote fb (now (clk w)) ex)"
    by (simp add: ex)
  then show ?thesis
    by (simp add: call put_assignments_def)
qed

text \<open>
  What the stored assignment makes the next call answer: its primary bot when that is
  available, else its first available fallback.
\<close>

lemma resolves_to_clk [simp]: "resolves_to g u bots b (w\<lparr>clk := c\<rparr>) = resolves_to g u bots b w"
  by (simp add: resolves_to_def)

lemma resolved_call:
  assumes h: "healthy w" and r: "resolves_to g u bots b w"
  shows "fst (get_or_create_assignment g u bots w) = Inr (Some b)"
proof -
  obtain x where x: "find (\<lambda>r. guild_id r = g \<and> user_id r = u \<and> is_active r) (assignments w) = Some x"
    and c: "if is_available (assigned_bot_id x) bots then assigned_bot_id x = b
           else find (\<lambda>fb. is_available fb bots) (fallback_bot_ids x) = Some b"
    using r by (auto simp: resolves_to_def)
  show ?thesis
    using h x c
    by (cases "is_available (assigned_bot_id x) bots")
       (simp_all add: get_or_create_assignment_def get_or_create_body_def try_except_def await_def
        ret_def utcnow_def get_collection_healthy find_one_healthy update_one_healthy)
qed

lemma find_append_snoc:
  "find P (xs @ [r]) = (case find P xs of Some x \<Rightarrow> Some x | None \<Rightarrow> if P r then Some r else None)"
  by (induction xs) simp_all

lemma find_deactivated:
  "find (\<lambda>r. guild_id r = g \<and> user_id r = u \<and> is_active r)
     (update_all (\<lambda>r. guild_id r = g \<and> user_id r = u) (\<lambda>r. r\<lparr>is_active := False\<rparr>) rows) = None"
  by (induction rows) (auto simp: update_all_def)

lemma py_min_by_healthy:
  "xs \<noteq> [] \<Longrightarrow> \<exists>x \<in> set xs. py_min_by key xs w = (Inr x, w)"
  using min_from_in[of key "hd xs" "tl xs"]
  by (cases xs) (auto simp: py_min_by_def ret_def)

lemma create_new_assignment_healthy:
  assumes h: "healthy w" and ne: "bots \<noteq> []"
  shows "\<exists>sel w1. sel \<in> set bots \<and>
           create_new_assignment g u bots w = (Inr (Some (bot_id sel)), w1) \<and>
           healthy w1 \<and> resolves_to g u bots (bot_id sel) w1"
proof -
  obtain counts where c: "count_assignments g bots Map.empty w = (Inr counts, w)"
    using count_assignments_healthy[OF h] by blast
  obtain sel where s: "sel \<in> set bots" "py_min_by (count_of counts) bots w = (Inr sel, w)"
    using py_min_by_healthy[OF ne] by blast
  obtain ys rs where sh: "random_shuffle (filter (\<lambda>b. b \<noteq> bot_id sel) (map bot_id bots)) w
      = (Inr ys, w\<lparr>rnd := rs\<rparr>)"
    unfolding random_shuffle_def
    by (cases "shuffle_from (length (filter (\<lambda>b. b \<noteq> bot_id sel) (map bot_id bots)) - 1)
                 (filter (\<lambda>b. b \<noteq> bot_id sel) (map bot_id bots)) (rnd w)") auto
  let ?w = "w\<lparr>rnd := rs\<rparr>"
  let ?rows = "update_all (\<lambda>r. guild_id r = g \<and> user_id r = u) (\<lambda>r. r\<lparr>is_active := False\<rparr>)
                 (assignments w)"
  let ?row = "\<lparr>assignment_id = fresh_id ?rows, guild_id = g, user_id = u,
                   assigned_bot_id = bot_id sel, assigned_at = now (clk w),
                   last_dm_at = Some (now (clk w)),
                   total_dms_sent = 1, assignment_reason = ''new_assignment'',
                   fallback_bot_ids = take 3 ys, is_active = True,
                   updated_at = now (clk w)\<rparr>"
  let ?w1 = "put_assignments (?rows @ [?row]) (put_assignments ?rows ?w)"
  have hw: "healthy ?w" using h by simp
  have call: "create_new_assignment g u bots w = (Inr (Some (bot_id sel)), ?w1)"
    using ne hw
    by (simp add: create_new_assignment_def try_except_def await_def ret_def utcnow_def
        get_collection_healthy[OF h] c s sh update_many_healthy insert_one_healthy
        put_assignments_def)
  have av: "is_available (bot_id sel) bots"
    using s(1) by (auto simp: is_available_def list_ex_iff)
  have "resolves_to g u bots (bot_id sel) ?w1"
    by (simp add: resolves_to_def put_assignments_def find_append_snoc find_deactivated av)
  then show ?thesis
    using s(1) call hw by (intro exI[of _ sel] exI[of _ ?w1]) simp
qed

lemma first_call:
  assumes h: "healthy w" and ne: "bots \<noteq> []"
  shows "\<exists>b w1. get_or_create_assignment g u bots w = (Inr (Some b), w1) \<and>
           is_available b bots \<and> healthy w1 \<and> resolves_to g u bots b w1"
proof -
  let ?P = "\<lambda>r. guild_id r = g \<and> user_id r = u \<and> is_active r"
  have new: ?thesis
    if "get_or_create_assignment g u bots w = create_new_assignment g u bots w"
  proof -
    obtain sel w1 where "sel \<in> set bots"
      "create_new_assignment g u bots w = (Inr (Some (bot_id sel)), w1)"
      "healthy w1" "resolves_to g u bots (bot_id sel) w1"
      using create_new_assignment_healthy[OF h ne] by blast
    moreover have "is_available (bot_id sel) bots"
      using \<open>sel \<in> set bots\<close> by (auto simp: is_available_def list_ex_iff)
    ultimately show ?thesis using that by auto
  qed
  have pass: "get_or_create_assignment g u bots w = create_new_assignment g u bots w"
    if "get_or_create_body g u bots w = create_new_assignment g u bots w"
  proof -
    obtain v w1 where "create_new_assignment g u bots w = (Inr v, w1)"
      using create_new_assignment_healthy[OF h ne] by blast
    then show ?thesis using that by (simp add: get_or_create_assignment_def try_except_def)
  qed
  show ?thesis
  proof (cases "find ?P (assignments w)")
    case None
    then have "get_or_create_body g u bots w = create_new_assignment g u bots w"
      using h by (simp add: get_or_create_body_def await_def get_collection_healthy find_one_healthy)
    then show ?thesis using new pass by blast
  next
    case (Some ex)
    show ?thesis
    proof (cases "is_available (assigned_bot_id ex) bots")
      case True
      let ?f = "\<lambda>r::MemberBotAssignment. r\<lparr>last_dm_at := Some (now (clk w)), updated_at := now (clk w)\<rparr>"
      let ?rows = "update_upto 1 (\<lambda>r. assignment_id r = assignment_id ex) ?f (assignments w)"
      have call: "get_or_create_assignment g u bots w =
          (Inr (Some (assigned_bot_id ex)), put_assignments ?rows w)"
        using h Some True
        by (simp add: get_or_create_assignment_def get_or_create_body_def try_except_def await_def
            ret_def utcnow_def get_collection_healthy find_one_healthy update_one_healthy)
      have "find ?P ?rows = Some ex \<or> find ?P ?rows = Some (?f ex)"
        using find_update_upto[of ?P ?f "assignments w" 1 "\<lambda>r. assignment_id r = assignment_id ex"]
          Some by auto
      then have "resolves_to g u bots (assigned_bot_id ex) (put_assignments ?rows w)"
        using True by (auto simp: resolves_to_def put_assignments_def)
      then show ?thesis using call True h by auto
    next
      case False
      show ?thesis
      proof (cases "find (\<lambda>fb. is_available fb bots) (fallback_bot_ids ex)")
        case None
        then have "get_or_create_body g u bots w = create_new_assignment g u bots w"
          using h Some False
          by (simp add: get_or_create_body_def await_def get_collection_healthy find_one_healthy)
        then show ?thesis using new pass by blast
      next
        case (Some fb)
        let ?f = "\<lambda>r. r\<lparr>assigned_bot_id := fb, last_dm_at := Some (now (clk w)),
                     updated_at := now (clk w), assignment_reason := ''fallback_used'',
                     total_dms_sent := total_dms_sent r + 1\<rparr>"
        let ?rows = "update_upto 1 (\<lambda>r. assignment_id r = assignment_id ex) ?f (assignments w)"
        have call: "get_or_create_assignment g u bots w =
            (Inr (Some fb), put_assignments ?rows w)"
          using h \<open>find ?P (assignments w) = Some ex\<close> False Some
          by (simp add: get_or_create_assignment_def get_or_create_body_def try_except_def
              await_def ret_def utcnow_def get_collection_healthy find_one_healthy
              update_one_healthy)
        have av: "is_available fb bots" using Some by (rule find_available)
        have "find ?P ?rows = Some ex \<or> find ?P ?rows = Some (?f ex)"
          using find_update_upto[of ?P ?f "assignments w" 1 "\<lambda>r. assignment_id r = assignment_id ex"]
            \<open>find ?P (assignments w) = Some ex\<close> by auto
        then have "resolves_to g u bots fb (put_assignments ?rows w)"
          using False Some av by (auto simp: resolves_to_def put_assignments_def)
        then show ?thesis using call av h by auto
      qed
    qed
  qed
qed

text \<open>
  C9. With a store that answers without failure and a non-empty \<open>available_bots\<close>, two
  calls of \<open>get_or_create_assignment\<close> for the same (guild, member) and the same
  \<open>available_bots\<close>, the second one on the world the first one left (the clock may have
  moved), return the same bot id, which is the id of an available bot.
\<close>

theorem get_or_create_assignment_idempotent:
  assumes "connected w" and "faults w = []" and "available_bots \<noteq> []"
    and "get_or_create_assignment g u available_bots w = (r1, w1)"
    and "get_or_create_assignment g u available_bots (w1\<lparr>clk := c\<rparr>) = (r2, w2)"
  shows "r2 = r1 \<and> (\<exists>b \<in> set available_bots. r1 = Inr (Some (bot_id b)))"
proof -
  have h: "healthy w" using assms(1,2) by (simp add: healthy_def)
  obtain b where b: "r1 = Inr (Some b)" "is_available b available_bots" "healthy w1"
    "resolves_to g u available_bots b w1"
    using first_call[OF h assms(3), of g u] assms(4) by auto
  have "fst (get_or_create_assignment g u available_bots (w1\<lparr>clk := c\<rparr>)) = Inr (Some b)"
    using b(3,4) by (intro resolved_call) simp_all
  then have "r2 = r1" using assms(5) b(1) by simp
  moreover have "\<exists>x \<in> set available_bots. b = bot_id x"
    using b(2) by (auto simp: is_available_def list_ex_iff)
  ultimately show ?thesis using b(1) by auto
qed

text \<open>
  C6, on a stored assignment with primary \<open>b1\<close> and fallbacks \<open>b3, b2\<close>, when only
  \<open>b2\<close> is available: the call returns \<open>b2\<close>, and the row has \<open>b2\<close> as its primary and
  five DMs counted instead of four.
\<close>

theorem fallback_becomes_primary_witness:
  "\<exists>w1. get_or_create_assignment ''g'' ''u'' [bot2] stored_world = (Inr (Some ''b2''), w1) \<and>
        assignments w1 = [stored_row\<lparr>assigned_bot_id := ''b2'', last_dm_at := Some 9,
          updated_at := 9, assignment_reason := ''fallback_used'', total_dms_sent := 5\<rparr>]"
  using fallback_becomes_primary[of stored_world "''g''" "''u''" stored_row "[bot2]" "''b2''"]
  by (auto simp: stored_world_def stored_row_def online_world_def bot2_def is_available_def
      promote_def)

text \<open>
  C9, from the empty collection with two available bots: both calls answer \<open>b1\<close>.
\<close>

theorem get_or_create_assignment_idempotent_witness:
  "fst (get_or_create_assignment ''g'' ''u'' [bot1, bot2]
          ((snd (get_or_create_assignment ''g'' ''u'' [bot1, bot2] online_world))
             \<lparr>clk := \<lparr>now = 5, sleeps = []\<rparr>\<rparr>))
     = fst (get_or_create_assignment ''g'' ''u'' [bot1, bot2] online_world) \<and>
   fst (get_or_create_assignment ''g'' ''u'' [bot1, bot2] online_world) = Inr (Some ''b1'')"
proof -
  let ?first = "get_or_create_assignment ''g'' ''u'' [bot1, bot2] online_world"
  let ?second = "get_or_create_assignment ''g'' ''u'' [bot1, bot2]
                   ((snd ?first)\<lparr>clk := \<lparr>now = 5, sleeps = []\<rparr>\<rparr>)"
  have "fst ?second = fst ?first"
    using get_or_create_assignment_idempotent
      [of online_world "[bot1, bot2]" "''g''" "''u''" "fst ?first" "snd ?first"
          "\<lparr>now = 5, sleeps = []\<rparr>" "fst ?second" "snd ?second"]
    by (simp add: online_world_def)
  moreover have "fst ?first = Inr (Some ''b1'')"
    by (simp add: online_world_def bot1_def bot2_def store_defs)
  ultimately show ?thesis by simp
qed

section \<open>campaign\_controller.py\<close>

text \<open>
  The dictionaries that the operations return: \<open>{'success': True, 'message', 'status'}\<close>
  or \<open>{'success': False, 'error'}\<close>.
\<close>

datatype op_result = Success string CampaignStatus | Failure string

fun success :: "op_result \<Rightarrow> bool" where
  "success (Success m s) = True"
| "success (Failure e) = False"

fun status_value :: "CampaignStatus \<Rightarrow> string" where
  "status_value PENDING = ''pending''"
| "status_value RUNNING = ''running''"
| "status_value PAUSED = ''paused''"
| "status_value COMPLETED = ''completed''"
| "status_value CANCELLED = ''cancelled''"

fun str :: "exn \<Rightarrow> string" where
  "str IndexError = ''IndexError''"
| "str KeyError = ''KeyError''"
| "str ValueError = ''ValueError''"
| "str ZeroDivisionError = ''ZeroDivisionError''"
| "str StoreError = ''StoreError''"
| "str WorkerUnavailable = ''Bot worker not available''"
| "str PlatformError = ''PlatformError''"
| "str CancelledError = ''CancelledError''"

text \<open>A change of the process-wide dictionaries.\<close>

definition modify :: "(world \<Rightarrow> world) \<Rightarrow> unit act" where
  "modify f = (\<lambda>w. (Inr (), f w))"

text \<open>
  The task that \<open>start_campaign\<close> creates: a scheduled campaign whose start time lies
  ahead is deferred, every other campaign executes at once.
\<close>

definition new_task :: "string \<Rightarrow> Campaign \<Rightarrow> real \<Rightarrow> task" where
  "new_task campaign_id campaign t =
     (if mode campaign = SCHEDULED \<and> start_at campaign \<noteq> None then
        (let delay = the (start_at campaign) - t in
         if delay > 0 then ScheduleTask campaign_id delay else ExecuteTask campaign_id)
      else ExecuteTask campaign_id)"

definition start_campaign :: "string \<Rightarrow> string \<Rightarrow> op_result act" where
  "start_campaign campaign_id started_by =
     try_except
       (await get_collection (\<lambda>_.
        await (find_one campaigns (\<lambda>c. campaign_key c = campaign_id)) (\<lambda>campaign_doc.
          case campaign_doc of
            None \<Rightarrow> ret (Failure ''Campaign not found'')
          | Some doc \<Rightarrow>
              let campaign = doc\<lparr>campaign_id_field := Some campaign_id\<rparr> in
              if status campaign \<noteq> PENDING then
                ret (Failure (''Campaign is '' @ status_value (status campaign) @
                              '', can only start pending campaigns''))
              else
                await utcnow (\<lambda>t.
                await (update_one campaigns put_campaigns (\<lambda>c. campaign_key c = campaign_id)
                         (\<lambda>c. c\<lparr>status := RUNNING, campaign_updated_at := t\<rparr>)) (\<lambda>_.
                await utcnow (\<lambda>t1.
                await (modify (\<lambda>w. w\<lparr>
                         campaign_tasks := (campaign_tasks w)
                           (campaign_id \<mapsto> new_task campaign_id campaign t1),
                         active_campaigns := (active_campaigns w)
                           (campaign_id \<mapsto> campaign\<lparr>status := RUNNING\<rparr>)\<rparr>)) (\<lambda>_.
                ret (Success (''Campaign '' @ name campaign @ '' started successfully'')
                       RUNNING))))))))
       (\<lambda>e. ret (Failure (''Failed to start campaign: '' @ str e)))"

text \<open>
  \<open>if campaign_id in self.campaign_tasks: self.campaign_tasks[campaign_id].cancel(); del ...\<close>:
  the cancelled task is put on record in \<open>cancelled_tasks\<close>.
\<close>

definition cancel_task :: "string \<Rightarrow> world \<Rightarrow> world" where
  "cancel_task campaign_id w =
     (case campaign_tasks w campaign_id of
        None \<Rightarrow> w
      | Some t \<Rightarrow> w\<lparr>cancelled_tasks := cancelled_tasks w @ [t],
                     campaign_tasks := (campaign_tasks w)(campaign_id := None)\<rparr>)"

definition pause_campaign :: "string \<Rightarrow> string \<Rightarrow> op_result act" where
  "pause_campaign campaign_id paused_by =
     try_except
       (await get_collection (\<lambda>_.
        await utcnow (\<lambda>t.
        await (update_one campaigns put_campaigns
                 (\<lambda>c. campaign_key c = campaign_id \<and> status c = RUNNING)
                 (\<lambda>c. c\<lparr>status := PAUSED, campaign_updated_at := t\<rparr>)) (\<lambda>matched_count.
          if matched_count = 0 then ret (Failure ''Campaign not found or not running'')
          else
            await (modify (cancel_task campaign_id)) (\<lambda>_.
            await (modify (\<lambda>w. case active_campaigns w campaign_id of
                      None \<Rightarrow> w
                    | Some c \<Rightarrow> w\<lparr>active_campaigns :=
                                   (active_campaigns w)(campaign_id \<mapsto> c\<lparr>status := PAUSED\<rparr>)\<rparr>))
              (\<lambda>_.
            ret (Success ''Campaign paused successfully'' PAUSED)))))))
       (\<lambda>e. ret (Failure (''Failed to pause campaign: '' @ str e)))"

definition cancel_campaign :: "string \<Rightarrow> string \<Rightarrow> op_result act" where
  "cancel_campaign campaign_id cancelled_by =
     try_except
       (await get_collection (\<lambda>_.
        await utcnow (\<lambda>t.
        await (update_one campaigns put_campaigns (\<lambda>c. campaign_key c = campaign_id)
                 (\<lambda>c. c\<lparr>status := CANCELLED, campaign_updated_at := t\<rparr>)) (\<lambda>matched_count.
          if matched_count = 0 then ret (Failure ''Campaign not found'')
          else
            await (modify (cancel_task campaign_id)) (\<lambda>_.
            await (modify (\<lambda>w. w\<lparr>active_campaigns :=
                                   (active_campaigns w)(campaign_id := None)\<rparr>)) (\<lambda>_.
            ret (Success ''Campaign cancelled successfully'' CANCELLED)))))))
       (\<lambda>e. ret (Failure (''Failed to cancel campaign: '' @ str e)))"

text \<open>The stored status of a campaign: that of the document \<open>find_one\<close> would give.\<close>

definition stored_status :: "string \<Rightarrow> world \<Rightarrow> CampaignStatus option" where
  "stored_status campaign_id w =
     map_option status (find (\<lambda>c. campaign_key c = campaign_id) (campaigns w))"

subsection \<open>Example campaigns\<close>

definition campaign1 :: Campaign where
  "campaign1 = \<lparr>campaign_key = ''c1'', campaign_id_field = None, campaign_guild_id = ''g'',
     name = ''launch'', message_content = ''hello'', embed_data = None, mode = INSTANT,
     pace = 10, start_at = None, status = PENDING, total_targets = 2, completed_targets = 0,
     failed_targets = 0, campaign_updated_at = 0\<rparr>"

definition campaign_world :: "CampaignStatus \<Rightarrow> world" where
  "campaign_world s = online_world\<lparr>campaigns := [campaign1\<lparr>status := s\<rparr>]\<rparr>"

section \<open>Properties of the campaign controller\<close>

subsection \<open>Guarded transitions\<close>

lemma find_distinct_key:
  "distinct (map key rows) \<Longrightarrow> c \<in> set rows \<Longrightarrow> find (\<lambda>x. key x = key c) rows = Some c"
  by (induction rows) (auto simp: image_iff)

lemma find_update_first:
  "find P rows = Some r \<Longrightarrow> P (f r) \<Longrightarrow> find P (update_upto (Suc k) P f rows) = Some (f r)"
  by (induction rows) (auto split: if_splits)

lemma take_fault_campaigns: "take_fault w = (f, w1) \<Longrightarrow> campaigns w1 = campaigns w"
  by (auto simp: take_fault_def split: list.splits)

lemma start_campaign_guard:
  "\<exists>v w1. start_campaign campaign_id started_by w = (Inr v, w1) \<and>
     (success v \<longrightarrow> stored_status campaign_id w1 = Some RUNNING) \<and>
     (stored_status campaign_id w \<noteq> Some PENDING \<longrightarrow> \<not> success v \<and> campaigns w1 = campaigns w)"
proof (cases "connected w")
  case False
  then show ?thesis
    by (simp add: start_campaign_def try_except_def await_def get_collection_def ret_def)
next
  case True
  obtain ft w0 where t: "take_fault w = (ft, w0)" by (cases "take_fault w")
  have c0: "campaigns w0 = campaigns w" using take_fault_campaigns[OF t] .
  show ?thesis
  proof (cases ft)
    case (Fail k)
    then show ?thesis
      using True t c0
      by (simp add: start_campaign_def try_except_def await_def get_collection_def ret_def
          find_one_def)
  next
    case NoFault
    show ?thesis
    proof (cases "find (\<lambda>c. campaign_key c = campaign_id) (campaigns w)")
      case None
      then show ?thesis
        using True t c0 NoFault
        by (simp add: start_campaign_def try_except_def await_def get_collection_def ret_def
            find_one_def stored_status_def)
    next
      case (Some doc)
      show ?thesis
      proof (cases "status doc = PENDING")
        case False
        then show ?thesis
          using True t c0 NoFault Some
          by (simp add: start_campaign_def try_except_def await_def get_collection_def ret_def
              find_one_def stored_status_def Let_def)
      next
        case pending: True
        obtain ft1 w2 where t1: "take_fault w0 = (ft1, w2)" by (cases "take_fault w0")
        have c2: "campaigns w2 = campaigns w" using take_fault_campaigns[OF t1] c0 by simp
        have upd: "find (\<lambda>c. campaign_key c = campaign_id)
                     (update_upto 1 (\<lambda>c. campaign_key c = campaign_id)
                        (\<lambda>c. c\<lparr>status := RUNNING, campaign_updated_at := x\<rparr>) (campaigns w))
                   = Some (doc\<lparr>status := RUNNING, campaign_updated_at := x\<rparr>)" for x
        proof -
          have "campaign_key doc = campaign_id" using Some by (auto simp: find_Some_iff)
          then show ?thesis
            using find_update_first[OF Some,
                of "\<lambda>c. c\<lparr>status := RUNNING, campaign_updated_at := x\<rparr>" 0]
            by simp
        qed
        show ?thesis
          using True t c0 NoFault Some pending t1 c2 upd
          by (cases ft1)
             (simp_all add: start_campaign_def try_except_def await_def get_collection_def
              ret_def find_one_def stored_status_def Let_def utcnow_def update_one_def
              modify_def put_campaigns_def)
      qed
    qed
  qed
qed

lemma not_running_no_match:
  assumes d: "distinct (map campaign_key (campaigns w))"
    and s: "stored_status campaign_id w \<noteq> Some st"
  shows "\<forall>c \<in> set (campaigns w). \<not> (campaign_key c = campaign_id \<and> status c = st)"
proof (intro ballI notI)
  fix c assume c: "c \<in> set (campaigns w)" and m: "campaign_key c = campaign_id \<and> status c = st"
  have "find (\<lambda>x. campaign_key x = campaign_key c) (campaigns w) = Some c"
    using find_distinct_key[OF d c] .
  then show False using s m by (simp add: stored_status_def)
qed

lemma list_ex_none: "\<forall>c \<in> set rows. \<not> P c \<Longrightarrow> \<not> list_ex P rows"
  by (simp add: list_ex_iff)

lemma find_update_narrow:
  "find Q rows = Some r \<Longrightarrow> P r \<Longrightarrow> (\<And>x. P x \<Longrightarrow> Q x) \<Longrightarrow> Q (f r) \<Longrightarrow>
   find Q (update_upto (Suc k) P f rows) = Some (f r)"
  by (induction rows) (auto split: if_splits)

lemma pause_campaign_guard:
  assumes d: "distinct (map campaign_key (campaigns w))"
  shows "\<exists>v w1. pause_campaign campaign_id paused_by w = (Inr v, w1) \<and>
     (success v \<longrightarrow> stored_status campaign_id w1 = Some PAUSED) \<and>
     (stored_status campaign_id w \<noteq> Some RUNNING \<longrightarrow> \<not> success v \<and> campaigns w1 = campaigns w)"
proof (cases "connected w")
  case False
  then show ?thesis
    by (simp add: pause_campaign_def try_except_def await_def get_collection_def ret_def)
next
  case True
  let ?P = "\<lambda>c. campaign_key c = campaign_id \<and> status c = RUNNING"
  obtain ft w0 where t: "take_fault w = (ft, w0)" by (cases "take_fault w")
  have c0: "campaigns w0 = campaigns w" using take_fault_campaigns[OF t] .
  have clk0: "clk w0 = clk w" using t by (auto simp: take_fault_def split: list.splits)
  show ?thesis
  proof (cases "stored_status campaign_id w = Some RUNNING")
    case False
    have no: "\<forall>c \<in> set (campaigns w). \<not> ?P c"
      using not_running_no_match[OF d False] .
    then have same: "update_upto k ?P f (campaigns w) = campaigns w" for k f
      by (rule update_upto_none)
    have nex: "\<not> list_ex ?P (campaigns w)" using no by (rule list_ex_none)
    show ?thesis
      using True t c0 False same nex
      by (cases ft)
         (simp_all add: pause_campaign_def try_except_def await_def get_collection_def ret_def
          utcnow_def update_one_def put_campaigns_def)
  next
    case running: True
    then obtain doc where doc: "find (\<lambda>c. campaign_key c = campaign_id) (campaigns w) = Some doc"
      and st: "status doc = RUNNING"
      by (auto simp: stored_status_def)
    have kd: "campaign_key doc = campaign_id" using doc by (auto simp: find_Some_iff)
    have "doc \<in> set (campaigns w)" using doc by (auto simp: find_Some_iff)
    then have ex: "list_ex ?P (campaigns w)"
      using st kd by (auto simp: list_ex_iff)
    have upd: "find (\<lambda>c. campaign_key c = campaign_id)
                 (update_upto (Suc 0) ?P (\<lambda>c. c\<lparr>status := PAUSED, campaign_updated_at := x\<rparr>)
                    (campaigns w))
               = Some (doc\<lparr>status := PAUSED, campaign_updated_at := x\<rparr>)" for x
      using find_update_narrow[OF doc, of ?P
          "\<lambda>c. c\<lparr>status := PAUSED, campaign_updated_at := x\<rparr>" 0] st kd
      by simp
    show ?thesis
      using True t c0 clk0 running ex upd
      by (cases ft)
         (simp_all add: pause_campaign_def try_except_def await_def get_collection_def ret_def
          utcnow_def update_one_def put_campaigns_def modify_def cancel_task_def
          stored_status_def split: option.splits)
  qed
qed

lemmas controller_defs = try_except_def await_def get_collection_def ret_def find_one_def
  utcnow_def update_one_def put_campaigns_def modify_def cancel_task_def take_fault_def
  Let_def

lemma start_completed:
  "start_campaign ''c1'' ''admin'' (campaign_world COMPLETED) =
     (Inr (Failure ''Campaign is completed, can only start pending campaigns''),
      campaign_world COMPLETED)"
  by (simp add: start_campaign_def campaign_world_def campaign1_def online_world_def
      controller_defs)

lemma pause_pending:
  "pause_campaign ''c1'' ''admin'' (campaign_world PENDING) =
     (Inr (Failure ''Campaign not found or not running''), campaign_world PENDING)"
  by (simp add: pause_campaign_def campaign_world_def campaign1_def online_world_def
      controller_defs)

lemma start_pending:
  "fst (start_campaign ''c1'' ''admin'' (campaign_world PENDING)) =
     Inr (Success ''Campaign launch started successfully'' RUNNING)"
  by (simp add: start_campaign_def campaign_world_def campaign1_def online_world_def
      controller_defs)

text \<open>
  C8. \<open>start_campaign\<close> succeeds only on a campaign whose stored status is pending, and
  \<open>pause_campaign\<close> only on one whose stored status is running. Both always return a
  result dictionary; when the status is another one, or there is no such campaign, the
  result is unsuccessful and the collection of campaigns is as it was. A started campaign
  is stored as running, a paused one as paused. The campaigns have distinct \<open>_id\<close>s.
\<close>

theorem start_and_pause_are_guarded:
  assumes "distinct (map campaign_key (campaigns w))"
  shows "(\<exists>v w1. start_campaign campaign_id user w = (Inr v, w1) \<and>
            (success v \<longrightarrow> stored_status campaign_id w = Some PENDING \<and>
                             stored_status campaign_id w1 = Some RUNNING) \<and>
            (stored_status campaign_id w \<noteq> Some PENDING \<longrightarrow>
               \<not> success v \<and> campaigns w1 = campaigns w \<and>
               stored_status campaign_id w1 = stored_status campaign_id w)) \<and>
         (\<exists>v w1. pause_campaign campaign_id user w = (Inr v, w1) \<and>
            (success v \<longrightarrow> stored_status campaign_id w = Some RUNNING \<and>
                             stored_status campaign_id w1 = Some PAUSED) \<and>
            (stored_status campaign_id w \<noteq> Some RUNNING \<longrightarrow>
               \<not> success v \<and> campaigns w1 = campaigns w \<and>
               stored_status campaign_id w1 = stored_status campaign_id w))"
proof -
  obtain v w1 where s: "start_campaign campaign_id user w = (Inr v, w1)"
    "success v \<longrightarrow> stored_status campaign_id w1 = Some RUNNING"
    "stored_status campaign_id w \<noteq> Some PENDING \<longrightarrow> \<not> success v \<and> campaigns w1 = campaigns w"
    using start_campaign_guard[of campaign_id user w] by blast
  obtain u w2 where p: "pause_campaign campaign_id user w = (Inr u, w2)"
    "success u \<longrightarrow> stored_status campaign_id w2 = Some PAUSED"
    "stored_status campaign_id w \<noteq> Some RUNNING \<longrightarrow> \<not> success u \<and> campaigns w2 = campaigns w"
    using pause_campaign_guard[OF assms, of campaign_id user] by blast
  have "stored_status campaign_id w \<noteq> Some PENDING \<longrightarrow>
          stored_status campaign_id w1 = stored_status campaign_id w"
    using s(3) by (simp add: stored_status_def)
  moreover have "stored_status campaign_id w \<noteq> Some RUNNING \<longrightarrow>
          stored_status campaign_id w2 = stored_status campaign_id w"
    using p(3) by (simp add: stored_status_def)
  ultimately show ?thesis using s p by blast
qed

theorem start_and_pause_are_guarded_witness:
  "distinct (map campaign_key (campaigns (campaign_world COMPLETED))) \<and>
   stored_status ''c1'' (campaign_world COMPLETED) \<noteq> Some PENDING \<and>
   stored_status ''c1'' (campaign_world COMPLETED) \<noteq> Some RUNNING \<and>
   \<not> success (projr (fst (start_campaign ''c1'' ''admin'' (campaign_world COMPLETED)))) \<and>
   \<not> success (projr (fst (pause_campaign ''c1'' ''admin'' (campaign_world COMPLETED)))) \<and>
   stored_status ''c1'' (snd (start_campaign ''c1'' ''admin'' (campaign_world COMPLETED)))
     = Some COMPLETED \<and>
   stored_status ''c1'' (snd (pause_campaign ''c1'' ''admin'' (campaign_world COMPLETED)))
     = Some COMPLETED"
proof -
  have d: "distinct (map campaign_key (campaigns (campaign_world COMPLETED)))"
    by (simp add: campaign_world_def)
  have s: "stored_status ''c1'' (campaign_world COMPLETED) = Some COMPLETED"
    by (simp add: stored_status_def campaign_world_def campaign1_def)
  show ?thesis
    using start_and_pause_are_guarded[OF d, of "''c1''" "''admin''"] d s
    by auto
qed


section \<open>Calls that overlap\<close>

subsection \<open>Coroutines that can be suspended\<close>

text \<open>
  The event loop runs one task until its next \<open>await\<close> of the store and may then resume
  another one. A coroutine that can be resumed piece by piece has finished, with a value
  or an exception, or is suspended before a piece: resumed in a world \<open>w\<close>, the piece leaves
  the world \<open>u w\<close> and the coroutine \<open>k w\<close>.
\<close>

datatype 'a coroutine =
    Finished "exn + 'a"
  | Suspended "world \<Rightarrow> 'a coroutine" "world \<Rightarrow> world"

text \<open>One await of a call that the event loop does not split.\<close>

definition atomic :: "'a act \<Rightarrow> 'a coroutine" where
  "atomic m = Suspended (\<lambda>w. Finished (fst (m w))) (\<lambda>w. snd (m w))"

primrec co_await :: "'a coroutine \<Rightarrow> ('a \<Rightarrow> 'b coroutine) \<Rightarrow> 'b coroutine" where
  "co_await (Finished r) f = (case r of Inl e \<Rightarrow> Finished (Inl e) | Inr x \<Rightarrow> f x)"
| "co_await (Suspended k u) f = Suspended (\<lambda>w. co_await (k w) f) u"

primrec co_try_except :: "'a coroutine \<Rightarrow> (exn \<Rightarrow> 'a coroutine) \<Rightarrow> 'a coroutine" where
  "co_try_except (Finished r) h =
     (case r of
        Inl e \<Rightarrow> if e = CancelledError then Finished (Inl e) else h e
      | Inr x \<Rightarrow> Finished (Inr x))"
| "co_try_except (Suspended k u) h = Suspended (\<lambda>w. co_try_except (k w) h) u"

text \<open>A coroutine resumed again and again, with no other task in between.\<close>

primrec run_to_end :: "'a coroutine \<Rightarrow> 'a act" where
  "run_to_end (Finished r) = (\<lambda>w. (r, w))"
| "run_to_end (Suspended k u) = (\<lambda>w. run_to_end (k w) (u w))"

subsection \<open>The unique index of the assignments\<close>

text \<open>
  \<open>INDEXES['member_bot_assignments']\<close> lists the compound index
  \<open>(guild_id, user_id, is_active)\<close>, and \<open>create_indexes\<close> creates every compound index
  with \<open>unique=True\<close>. A store that holds this index keeps the triples of its rows
  distinct: it refuses the write of a document that would repeat a triple.
\<close>

definition index_key :: "MemberBotAssignment \<Rightarrow> string \<times> string \<times> bool" where
  "index_key r = (guild_id r, user_id r, is_active r)"

definition respects_index :: "MemberBotAssignment list \<Rightarrow> bool" where
  "respects_index rows = distinct (map index_key rows)"

text \<open>
  An update under the index goes through the matching documents in the order of the
  collection, at most \<open>k\<close> of them, and stops at the first one that the index refuses;
  the documents written before stay written. The result tells whether it was refused.
  \<open>seen\<close> are the documents already passed.
\<close>

fun write_upto ::
  "nat \<Rightarrow> (MemberBotAssignment \<Rightarrow> bool) \<Rightarrow> (MemberBotAssignment \<Rightarrow> MemberBotAssignment)
     \<Rightarrow> MemberBotAssignment list \<Rightarrow> MemberBotAssignment list
     \<Rightarrow> MemberBotAssignment list \<times> bool" where
  "write_upto k P f seen [] = (seen, False)"
| "write_upto 0 P f seen (r # rows) = (seen @ r # rows, False)"
| "write_upto (Suc k) P f seen (r # rows) =
     (if P r then
        (if respects_index (seen @ f r # rows) then write_upto k P f (seen @ [f r]) rows
         else (seen @ r # rows, True))
      else write_upto (Suc k) P f (seen @ [r]) rows)"

text \<open>
  The write calls on the assignments of a store that holds the index. As before, a
  fault \<open>Fail k\<close> makes the call raise after \<open>k\<close> documents.
\<close>

definition indexed_update_one ::
  "(MemberBotAssignment \<Rightarrow> bool) \<Rightarrow> (MemberBotAssignment \<Rightarrow> MemberBotAssignment) \<Rightarrow> nat act" where
  "indexed_update_one P f = (\<lambda>w. case take_fault w of
       (NoFault, w1) \<Rightarrow>
         (case write_upto 1 P f [] (assignments w1) of
            (rows, False) \<Rightarrow> (Inr (if list_ex P (assignments w1) then 1 else 0),
                              put_assignments rows w1)
          | (rows, True) \<Rightarrow> (Inl StoreError, put_assignments rows w1))
     | (Fail k, w1) \<Rightarrow>
         (Inl StoreError, put_assignments (fst (write_upto (min k 1) P f [] (assignments w1))) w1))"

definition indexed_update_many ::
  "(MemberBotAssignment \<Rightarrow> bool) \<Rightarrow> (MemberBotAssignment \<Rightarrow> MemberBotAssignment) \<Rightarrow> nat act" where
  "indexed_update_many P f = (\<lambda>w. case take_fault w of
       (NoFault, w1) \<Rightarrow>
         (case write_upto (length (assignments w1)) P f [] (assignments w1) of
            (rows, False) \<Rightarrow> (Inr (length (filter P (assignments w1))), put_assignments rows w1)
          | (rows, True) \<Rightarrow> (Inl StoreError, put_assignments rows w1))
     | (Fail k, w1) \<Rightarrow>
         (Inl StoreError, put_assignments (fst (write_upto k P f [] (assignments w1))) w1))"

definition indexed_update_many_modified ::
  "(MemberBotAssignment \<Rightarrow> bool) \<Rightarrow> (MemberBotAssignment \<Rightarrow> MemberBotAssignment) \<Rightarrow> nat act" where
  "indexed_update_many_modified P f = (\<lambda>w. case take_fault w of
       (NoFault, w1) \<Rightarrow>
         (case write_upto (length (assignments w1)) P f [] (assignments w1) of
            (rows, False) \<Rightarrow> (Inr (length (filter (\<lambda>r. P r \<and> f r \<noteq> r) (assignments w1))),
                              put_assignments rows w1)
          | (rows, True) \<Rightarrow> (Inl StoreError, put_assignments rows w1))
     | (Fail k, w1) \<Rightarrow>
         (Inl StoreError, put_assignments (fst (write_upto k P f [] (assignments w1))) w1))"

definition indexed_insert_one :: "MemberBotAssignment \<Rightarrow> unit act" where
  "indexed_insert_one r = (\<lambda>w. case take_fault w of
       (NoFault, w1) \<Rightarrow>
         if respects_index (assignments w1 @ [r])
         then (Inr (), put_assignments (assignments w1 @ [r]) w1)
         else (Inl StoreError, w1)
     | (Fail k, w1) \<Rightarrow>
         (Inl StoreError,
          if k = 0 \<or> \<not> respects_index (assignments w1 @ [r]) then w1
          else put_assignments (assignments w1 @ [r]) w1))"

subsection \<open>The two operations as coroutines\<close>

text \<open>
  The write calls of the operations, on a store that holds the index (\<open>indexed\<close>) or on
  the store as it was modelled so far.
\<close>

definition store_update_one ::
  "bool \<Rightarrow> (MemberBotAssignment \<Rightarrow> bool) \<Rightarrow> (MemberBotAssignment \<Rightarrow> MemberBotAssignment) \<Rightarrow> nat act" where
  "store_update_one indexed P f =
     (if indexed then indexed_update_one P f else update_one assignments put_assignments P f)"

definition store_update_many ::
  "bool \<Rightarrow> (MemberBotAssignment \<Rightarrow> bool) \<Rightarrow> (MemberBotAssignment \<Rightarrow> MemberBotAssignment) \<Rightarrow> nat act" where
  "store_update_many indexed P f =
     (if indexed then indexed_update_many P f else update_many assignments put_assignments P f)"

definition store_update_many_modified ::
  "bool \<Rightarrow> (MemberBotAssignment \<Rightarrow> bool) \<Rightarrow> (MemberBotAssignment \<Rightarrow> MemberBotAssignment) \<Rightarrow> nat act" where
  "store_update_many_modified indexed P f =
     (if indexed then indexed_update_many_modified P f
      else update_many_modified assignments put_assignments P f)"

definition store_insert_one :: "bool \<Rightarrow> MemberBotAssignment \<Rightarrow> unit act" where
  "store_insert_one indexed r =
     (if indexed then indexed_insert_one r else insert_one assignments put_assignments r)"

text \<open>
  The operations of \<open>member_assignment.py\<close> once more, call for call as above, with
  every call a piece of its own: the event loop may switch tasks wherever the program
  awaits the store (and, here, also between the calls that do not wait).
\<close>

primrec count_assignments_task ::
  "string \<Rightarrow> bot list \<Rightarrow> (string \<rightharpoonup> nat) \<Rightarrow> (string \<rightharpoonup> nat) coroutine" where
  "count_assignments_task g [] counts = Finished (Inr counts)"
| "count_assignments_task g (b # bs) counts =
     co_await (atomic (count_documents assignments
                 (\<lambda>r. guild_id r = g \<and> assigned_bot_id r = bot_id b \<and> is_active r)))
       (\<lambda>n. count_assignments_task g bs (counts(bot_id b \<mapsto> n)))"

definition create_new_assignment_task ::
  "bool \<Rightarrow> string \<Rightarrow> string \<Rightarrow> bot list \<Rightarrow> string option coroutine" where
  "create_new_assignment_task indexed g u available_bots =
     (if available_bots = [] then Finished (Inr None)
      else co_try_except
        (co_await (atomic get_collection) (\<lambda>_.
         co_await (count_assignments_task g available_bots Map.empty) (\<lambda>bot_assignment_counts.
         co_await (atomic (py_min_by (count_of bot_assignment_counts) available_bots))
           (\<lambda>selected_bot.
         co_await (atomic (random_shuffle
                     (filter (\<lambda>b. b \<noteq> bot_id selected_bot) (map bot_id available_bots))))
           (\<lambda>fallback_bots.
         co_await (atomic utcnow) (\<lambda>t.
         co_await (atomic (store_update_many indexed
                     (\<lambda>r. guild_id r = g \<and> user_id r = u) (\<lambda>r. r\<lparr>is_active := False\<rparr>))) (\<lambda>_.
         co_await (atomic (\<lambda>w. store_insert_one indexed
                     \<lparr>assignment_id = fresh_id (assignments w), guild_id = g, user_id = u,
                      assigned_bot_id = bot_id selected_bot, assigned_at = t,
                      last_dm_at = Some t, total_dms_sent = 1,
                      assignment_reason = ''new_assignment'',
                      fallback_bot_ids = take 3 fallback_bots, is_active = True,
                      updated_at = t\<rparr> w)) (\<lambda>_.
         Finished (Inr (Some (bot_id selected_bot)))))))))))
        (\<lambda>e. co_await (atomic (random_choice available_bots))
                (\<lambda>b. Finished (Inr (Some (bot_id b))))))"

definition get_or_create_body_task ::
  "bool \<Rightarrow> string \<Rightarrow> string \<Rightarrow> bot list \<Rightarrow> string option coroutine" where
  "get_or_create_body_task indexed g u available_bots =
     co_await (atomic get_collection) (\<lambda>_.
     co_await (atomic (find_one assignments (\<lambda>r. guild_id r = g \<and> user_id r = u \<and> is_active r)))
       (\<lambda>existing_assignment.
          case existing_assignment of
            None \<Rightarrow> create_new_assignment_task indexed g u available_bots
          | Some ex \<Rightarrow>
              if is_available (assigned_bot_id ex) available_bots then
                co_await (atomic utcnow) (\<lambda>t.
                co_await (atomic (store_update_one indexed
                            (\<lambda>r. assignment_id r = assignment_id ex)
                            (\<lambda>r. r\<lparr>last_dm_at := Some t, updated_at := t\<rparr>))) (\<lambda>_.
                Finished (Inr (Some (assigned_bot_id ex)))))
              else
                (case find (\<lambda>fb. is_available fb available_bots) (fallback_bot_ids ex) of
                   Some fallback_bot_id \<Rightarrow>
                     co_await (atomic utcnow) (\<lambda>t.
                     co_await (atomic (store_update_one indexed
                                 (\<lambda>r. assignment_id r = assignment_id ex)
                                 (\<lambda>r. r\<lparr>assigned_bot_id := fallback_bot_id,
                                        last_dm_at := Some t, updated_at := t,
                                        assignment_reason := ''fallback_used'',
                                        total_dms_sent := total_dms_sent r + 1\<rparr>))) (\<lambda>_.
                     Finished (Inr (Some fallback_bot_id))))
                 | None \<Rightarrow> create_new_assignment_task indexed g u available_bots)))"

definition get_or_create_assignment_task ::
  "bool \<Rightarrow> string \<Rightarrow> string \<Rightarrow> bot list \<Rightarrow> string option coroutine" where
  "get_or_create_assignment_task indexed g u available_bots =
     co_try_except (get_or_create_body_task indexed g u available_bots)
       (\<lambda>e. case available_bots of
               [] \<Rightarrow> Finished (Inr None)
             | b # bs \<Rightarrow> Finished (Inr (Some (bot_id b))))"

definition reassign_bot_members_task :: "bool \<Rightarrow> string \<Rightarrow> string \<Rightarrow> string \<Rightarrow> nat coroutine" where
  "reassign_bot_members_task indexed old_bot_id new_bot_id g =
     co_try_except
       (co_await (atomic get_collection) (\<lambda>_.
        co_await (atomic utcnow) (\<lambda>t.
        atomic (store_update_many_modified indexed
          (\<lambda>r. guild_id r = g \<and> assigned_bot_id r = old_bot_id \<and> is_active r)
          (\<lambda>r. r\<lparr>assigned_bot_id := new_bot_id,
                 assignment_reason := ''bot_failure_reassignment'', updated_at := t\<rparr>)))))
       (\<lambda>e. Finished (Inr 0))"

subsection \<open>The event loop\<close>

text \<open>
  The calls in flight are a pool of tasks; what a task returns goes to its caller and
  does not matter here. An event of the loop resumes one task of the pool for one piece,
  or is a move of the clock. A task that is resumed for the first time is a call that
  starts then, so the pool holds the calls of the whole history, early and late ones.
\<close>

datatype invocation =
    GetOrCreateAssignment string string "bot list"
  | ReassignBotMembers string string string

definition forget :: "'a coroutine \<Rightarrow> unit coroutine" where
  "forget c = co_await c (\<lambda>x. Finished (Inr ()))"

fun create_task :: "bool \<Rightarrow> invocation \<Rightarrow> unit coroutine" where
  "create_task indexed (GetOrCreateAssignment g u available_bots) =
     forget (get_or_create_assignment_task indexed g u available_bots)"
| "create_task indexed (ReassignBotMembers old_bot_id new_bot_id g) =
     forget (reassign_bot_members_task indexed old_bot_id new_bot_id g)"

datatype event = Resume nat | Tick real

fun advance :: "event \<Rightarrow> unit coroutine list \<times> world \<Rightarrow> unit coroutine list \<times> world" where
  "advance (Tick t) (pool, w) = (pool, at_time t w)"
| "advance (Resume i) (pool, w) =
     (if i < length pool then
        (case pool ! i of
           Finished r \<Rightarrow> (pool, w)
         | Suspended k u \<Rightarrow> (pool[i := k w], u w))
      else (pool, w))"

definition interleave ::
  "bool \<Rightarrow> invocation list \<Rightarrow> event list \<Rightarrow> world \<Rightarrow> unit coroutine list \<times> world" where
  "interleave indexed calls events w = fold advance events (map (create_task indexed) calls, w)"

text \<open>The pool has settled when every task has finished.\<close>

fun finished :: "'a coroutine \<Rightarrow> bool" where
  "finished (Finished r) = True"
| "finished (Suspended k u) = False"

definition settled :: "unit coroutine list \<times> world \<Rightarrow> bool" where
  "settled cfg = list_all finished (fst cfg)"

section \<open>Properties of calls that overlap\<close>

subsection \<open>A coroutine run to its end is the call\<close>

lemma run_to_end_atomic [simp]: "run_to_end (atomic m) = m"
  by (rule ext) (simp add: atomic_def)

lemma run_to_end_await:
  "run_to_end (co_await c f) w = await (run_to_end c) (\<lambda>x. run_to_end (f x)) w"
  by (induction c arbitrary: w) (simp_all add: await_def split: sum.splits)

lemma run_to_end_try_except:
  "run_to_end (co_try_except c h) w = try_except (run_to_end c) (\<lambda>e. run_to_end (h e)) w"
  by (induction c arbitrary: w) (simp_all add: try_except_def split: sum.splits)

lemma run_to_end_count_assignments:
  "run_to_end (count_assignments_task g bs counts) w = count_assignments g bs counts w"
  by (induction bs arbitrary: counts w)
     (simp_all add: run_to_end_await await_def split: prod.splits sum.splits)

lemma run_to_end_count_assignments_eq [simp]:
  "run_to_end (count_assignments_task g bs counts) = count_assignments g bs counts"
  by (rule ext) (rule run_to_end_count_assignments)

lemma run_to_end_await_eq [simp]:
  "run_to_end (co_await c f) = await (run_to_end c) (\<lambda>x. run_to_end (f x))"
  by (rule ext) (rule run_to_end_await)

lemma run_to_end_try_except_eq [simp]:
  "run_to_end (co_try_except c h) = try_except (run_to_end c) (\<lambda>e. run_to_end (h e))"
  by (rule ext) (rule run_to_end_try_except)

lemma run_to_end_create_new_assignment:
  "run_to_end (create_new_assignment_task False g u bots) = create_new_assignment g u bots"
  by (simp add: create_new_assignment_task_def create_new_assignment_def store_update_many_def
      store_insert_one_def ret_def)

lemma run_to_end_get_or_create_body:
  "run_to_end (get_or_create_body_task False g u bots) = get_or_create_body g u bots"
  unfolding get_or_create_body_task_def get_or_create_body_def
  by (simp add: run_to_end_create_new_assignment store_update_one_def ret_def
      option.case_distrib[of run_to_end] if_distrib[of run_to_end] cong: option.case_cong if_cong)

lemma run_to_end_get_or_create_assignment:
  "run_to_end (get_or_create_assignment_task False g u bots) = get_or_create_assignment g u bots"
  unfolding get_or_create_assignment_task_def get_or_create_assignment_def
  by (simp add: run_to_end_get_or_create_body ret_def list.case_distrib[of run_to_end] cong: list.case_cong)

lemma run_to_end_reassign_bot_members:
  "run_to_end (reassign_bot_members_task False old new g) = reassign_bot_members old new g"
  unfolding reassign_bot_members_task_def reassign_bot_members_def
  by (simp add: store_update_many_modified_def ret_def)

subsection \<open>The index holds after every piece\<close>

lemma respects_index_write_upto:
  "respects_index (seen @ rows) \<Longrightarrow> respects_index (fst (write_upto k P f seen rows))"
  by (induction k P f seen rows rule: write_upto.induct) simp_all

lemma respects_index_write_all:
  "respects_index rows \<Longrightarrow> respects_index (fst (write_upto k P f [] rows))"
  using respects_index_write_upto[of "[]" rows k P f] by simp

lemma respects_index_written:
  "respects_index rows \<Longrightarrow> write_upto k P f [] rows = (x, b) \<Longrightarrow> respects_index x"
  using respects_index_write_all[of rows k P f] by simp

text \<open>A call that a store with the index can run without losing the index.\<close>

definition guards :: "'a act \<Rightarrow> bool" where
  "guards m = (\<forall>w. respects_index (assignments w) \<longrightarrow> respects_index (assignments (snd (m w))))"

lemma guards_keeps: "keeps m \<Longrightarrow> guards m"
  by (simp add: guards_def keeps_def)

lemma guards_indexed_update_one: "guards (indexed_update_one P f)"
proof -
  have "respects_index (assignments (snd (indexed_update_one P f w)))"
    if r: "respects_index (assignments w)" for w
  proof -
    obtain ft w1 where t: "take_fault w = (ft, w1)" by (cases "take_fault w")
    have r1: "respects_index (assignments w1)" using r take_fault_eqD[OF t] by simp
    show ?thesis
      using t respects_index_write_all[OF r1]
      by (cases ft)
         (auto simp: indexed_update_one_def put_assignments_def split: prod.splits bool.splits
            dest: respects_index_written[OF r1])
  qed
  then show ?thesis by (simp add: guards_def)
qed

lemma guards_indexed_update_many: "guards (indexed_update_many P f)"
proof -
  have "respects_index (assignments (snd (indexed_update_many P f w)))"
    if r: "respects_index (assignments w)" for w
  proof -
    obtain ft w1 where t: "take_fault w = (ft, w1)" by (cases "take_fault w")
    have r1: "respects_index (assignments w1)" using r take_fault_eqD[OF t] by simp
    show ?thesis
      using t respects_index_write_all[OF r1]
      by (cases ft)
         (auto simp: indexed_update_many_def put_assignments_def split: prod.splits bool.splits
            dest: respects_index_written[OF r1])
  qed
  then show ?thesis by (simp add: guards_def)
qed

lemma guards_indexed_update_many_modified: "guards (indexed_update_many_modified P f)"
proof -
  have "respects_index (assignments (snd (indexed_update_many_modified P f w)))"
    if r: "respects_index (assignments w)" for w
  proof -
    obtain ft w1 where t: "take_fault w = (ft, w1)" by (cases "take_fault w")
    have r1: "respects_index (assignments w1)" using r take_fault_eqD[OF t] by simp
    show ?thesis
      using t respects_index_write_all[OF r1]
      by (cases ft)
         (auto simp: indexed_update_many_modified_def put_assignments_def split: prod.splits bool.splits
            dest: respects_index_written[OF r1])
  qed
  then show ?thesis by (simp add: guards_def)
qed

lemma guards_indexed_insert_one: "guards (\<lambda>w. indexed_insert_one (row w) w)"
proof -
  have "respects_index (assignments (snd (indexed_insert_one (row w) w)))"
    if r: "respects_index (assignments w)" for w
  proof -
    obtain ft w1 where t: "take_fault w = (ft, w1)" by (cases "take_fault w")
    have r1: "respects_index (assignments w1)" using r take_fault_eqD[OF t] by simp
    show ?thesis
      using t r1 by (cases ft) (auto simp: indexed_insert_one_def put_assignments_def)
  qed
  then show ?thesis by (simp add: guards_def)
qed

text \<open>A coroutine all of whose pieces a store with the index can run.\<close>

primrec safe :: "'a coroutine \<Rightarrow> bool" where
  "safe (Finished r) = True"
| "safe (Suspended k u) =
     (\<forall>w. respects_index (assignments w) \<longrightarrow> respects_index (assignments (u w)) \<and> safe (k w))"

lemma safe_atomic: "guards m \<Longrightarrow> safe (atomic m)"
  by (simp add: atomic_def guards_def)

lemma safe_await: "safe c \<Longrightarrow> (\<And>x. safe (f x)) \<Longrightarrow> safe (co_await c f)"
  by (induction c) (auto split: sum.splits)

lemma safe_try_except: "safe c \<Longrightarrow> (\<And>e. safe (h e)) \<Longrightarrow> safe (co_try_except c h)"
  by (induction c) (auto split: sum.splits)

lemma safe_finished: "safe (Finished r)"
  by simp

lemma safe_count_assignments: "safe (count_assignments_task g bs counts)"
  by (induction bs arbitrary: counts)
     (simp_all add: safe_await safe_atomic guards_keeps keeps_count_documents)

lemmas safe_reads =
  safe_atomic[OF guards_keeps[OF keeps_get_collection]]
  safe_atomic[OF guards_keeps[OF keeps_utcnow]]
  safe_atomic[OF guards_keeps[OF keeps_find_one]]
  safe_atomic[OF guards_keeps[OF keeps_py_min_by]]
  safe_atomic[OF guards_keeps[OF keeps_random_shuffle]]
  safe_atomic[OF guards_keeps[OF keeps_random_choice]]

lemma safe_create_new_assignment: "safe (create_new_assignment_task True g u bots)"
  unfolding create_new_assignment_task_def store_update_many_def store_insert_one_def
  by (auto intro!: safe_try_except safe_await safe_reads safe_count_assignments safe_atomic
        guards_indexed_update_many guards_indexed_insert_one)

lemma safe_get_or_create_body: "safe (get_or_create_body_task True g u bots)"
  unfolding get_or_create_body_task_def store_update_one_def
  by (auto intro!: safe_await safe_reads safe_atomic guards_indexed_update_one
        safe_create_new_assignment split: option.splits)

lemma safe_get_or_create_assignment: "safe (get_or_create_assignment_task True g u bots)"
  unfolding get_or_create_assignment_task_def
  by (auto intro!: safe_try_except safe_get_or_create_body split: list.splits)

lemma safe_reassign_bot_members: "safe (reassign_bot_members_task True old new g)"
  unfolding reassign_bot_members_task_def store_update_many_modified_def
  by (auto intro!: safe_try_except safe_await safe_reads safe_atomic
        guards_indexed_update_many_modified)

lemma safe_create_task: "safe (create_task True call)"
  by (cases call)
     (auto simp: forget_def intro!: safe_await safe_get_or_create_assignment
        safe_reassign_bot_members)

text \<open>The loop keeps the index, whatever it resumes.\<close>

definition sound :: "unit coroutine list \<times> world \<Rightarrow> bool" where
  "sound cfg = (list_all safe (fst cfg) \<and> respects_index (assignments (snd cfg)))"

lemma sound_advance: "sound cfg \<Longrightarrow> sound (advance e cfg)"
proof (cases cfg)
  case (Pair pool w)
  assume s: "sound cfg"
  show ?thesis
  proof (cases e)
    case (Tick t)
    then show ?thesis using s Pair by (simp add: sound_def at_time_def)
  next
    case (Resume i)
    show ?thesis
    proof (cases "i < length pool")
      case False
      then show ?thesis using s Pair Resume by simp
    next
      case True
      then have si: "safe (pool ! i)" using s Pair by (simp add: sound_def list_all_length)
      show ?thesis
      proof (cases "pool ! i")
        case (Finished r)
        then show ?thesis using s Pair Resume True by simp
      next
        case (Suspended k u)
        have r: "respects_index (assignments w)" using s Pair by (simp add: sound_def)
        have "respects_index (assignments (u w))" and "safe (k w)"
          using si Suspended r by simp_all
        moreover have "list_all safe (pool[i := k w])"
          using s Pair \<open>safe (k w)\<close>
          by (auto simp: sound_def list_all_iff dest!: set_update_subset_insert[THEN subsetD])
        ultimately show ?thesis using Pair Resume True Suspended by (simp add: sound_def)
      qed
    qed
  qed
qed

lemma sound_fold: "sound cfg \<Longrightarrow> sound (fold advance events cfg)"
  by (induction events arbitrary: cfg) (simp_all add: sound_advance)

lemma sound_interleave:
  "respects_index (assignments w) \<Longrightarrow> sound (interleave True calls events w)"
  unfolding interleave_def
  by (rule sound_fold) (simp add: sound_def list_all_iff safe_create_task)

lemma filter_distinct_key:
  "distinct (map key rows) \<Longrightarrow> length (filter (\<lambda>r. key r = v) rows) \<le> 1"
proof (induction rows)
  case Nil
  then show ?case by simp
next
  case (Cons r rows)
  show ?case
  proof (cases "key r = v")
    case True
    then have "filter (\<lambda>r. key r = v) rows = []"
      using Cons.prems by (auto simp: filter_empty_conv image_iff)
    then show ?thesis using True by simp
  next
    case False
    then show ?thesis using Cons by simp
  qed
qed

lemma respects_index_one_active: "respects_index rows \<Longrightarrow> one_active rows"
proof -
  assume r: "respects_index rows"
  have "length (filter (\<lambda>r. guild_id r = g \<and> user_id r = u \<and> is_active r) rows) \<le> 1" for g u
  proof -
    have "(\<lambda>r. guild_id r = g \<and> user_id r = u \<and> is_active r) = (\<lambda>r. index_key r = (g, u, True))"
      by (auto simp: index_key_def fun_eq_iff)
    then show ?thesis
      using filter_distinct_key[of index_key rows "(g, u, True)"] r
      by (simp add: respects_index_def)
  qed
  then show ?thesis by (simp add: one_active_def)
qed

subsection \<open>Two resolutions of one member at the same time\<close>

text \<open>
  Two calls for the same member, with no row stored yet. Each runs up to its
  \<open>insert_one\<close> (eight pieces: the collection, \<open>find_one\<close>, the collection again, one
  count, the choice of the bot, the shuffle, the clock and \<open>update_many\<close>), and then
  both insert.
\<close>

definition twice :: "invocation list" where
  "twice = [GetOrCreateAssignment ''g'' ''u'' [bot1], GetOrCreateAssignment ''g'' ''u'' [bot1]]"

definition overlap :: "event list" where
  "overlap = replicate 8 (Resume 0) @ replicate 8 (Resume 1) @ [Resume 0, Resume 1, Resume 1]"

lemmas loop_defs = interleave_def twice_def overlap_def forget_def
  get_or_create_assignment_task_def get_or_create_body_task_def create_new_assignment_task_def
  store_update_one_def store_update_many_def store_insert_one_def atomic_def settled_def
  indexed_update_many_def indexed_insert_one_def respects_index_def index_key_def
  numeral_eq_Suc

text \<open>
  Without the index both rows are stored, and both are active: what keeps one active
  row under overlapping calls is the index, not the order of the two writes.
\<close>

lemma overlapping_calls_without_index:
  "settled (interleave False twice overlap online_world) \<and>
   map (\<lambda>r. (user_id r, assigned_bot_id r, is_active r))
     (assignments (snd (interleave False twice overlap online_world)))
   = [(''u'', ''b1'', True), (''u'', ''b1'', True)]"
  by (simp add: loop_defs online_world_def bot1_def store_defs)

text \<open>With the index the second insert is refused, and the second call falls back.\<close>

lemma overlapping_calls_with_index:
  "settled (interleave True twice overlap online_world) \<and>
   map (\<lambda>r. (user_id r, assigned_bot_id r, is_active r))
     (assignments (snd (interleave True twice overlap online_world)))
   = [(''u'', ''b1'', True)]"
  by (simp add: loop_defs online_world_def bot1_def store_defs)

text \<open>
  C2. At most one active row for each (guild, member), after every history of
  \<open>get_or_create_assignment\<close> and \<open>reassign_bot_members\<close> calls, with any faults of the
  store on the way:

  \<^item> when the calls run one after the other, each to its end, on any store: the new
    active row is inserted only after an \<open>update_many\<close> that has deactivated every row of
    the member has come back;

  \<^item> when the calls overlap in any way (any number of calls in flight, resumed in any
    order, piece by piece, to the end or not), on a store that holds the unique index
    on \<open>(guild_id, user_id, is_active)\<close> that \<open>create_indexes\<close> declares.
\<close>

theorem one_active_assignment_per_member:
  "(one_active (assignments w) \<longrightarrow> one_active (assignments (run ops w))) \<and>
   (respects_index (assignments w) \<longrightarrow>
      one_active (assignments (snd (interleave True calls events w))))"
proof (intro conjI impI)
  assume "one_active (assignments w)"
  then show "one_active (assignments (run ops w))"
    using run_inv[of w ops] by (simp add: assignment_inv_def)
next
  assume "respects_index (assignments w)"
  then have "sound (interleave True calls events w)" by (rule sound_interleave)
  then show "one_active (assignments (snd (interleave True calls events w)))"
    by (simp add: sound_def respects_index_one_active)
qed

theorem one_active_assignment_per_member_witness:
  "one_active (assignments online_world) \<and> respects_index (assignments online_world) \<and>
   one_active (assignments (run history online_world)) \<and>
   one_active (assignments (snd (interleave True twice overlap online_world)))"
  using one_active_assignment_per_member[of online_world history twice overlap]
  by (simp add: one_active_def respects_index_def online_world_def)


section \<open>campaign\_controller.py: the execution task\<close>

text \<open>\<open>find(filter)\<close>, read through: the matching rows in the order of the collection.\<close>

definition find_many :: "(world \<Rightarrow> 'r list) \<Rightarrow> ('r \<Rightarrow> bool) \<Rightarrow> 'r list act" where
  "find_many sel P = (\<lambda>w. case take_fault w of
       (NoFault, w1) \<Rightarrow> (Inr (filter P (sel w1)), w1)
     | (Fail k, w1) \<Rightarrow> (Inl StoreError, w1))"

text \<open>\<open>asyncio.sleep\<close> in a coroutine over the world.\<close>

definition asleep :: "real \<Rightarrow> unit act" where
  "asleep d = (\<lambda>w. (Inr (), w\<lparr>clk := sleep d (clk w)\<rparr>))"

text \<open>\<open>get_bot_worker\<close> is \<open>active_workers.get\<close>.\<close>

definition get_bot_worker :: "string \<Rightarrow> worker option act" where
  "get_bot_worker b = (\<lambda>w. (Inr (active_workers w b), w))"

text \<open>
  \<open>DiscordBotWorker.queue_message\<close>, on the worker registered under \<open>b\<close>: the message
  goes to the end of its queue. The queue is unbounded, so \<open>put\<close> does not wait.
\<close>

definition queue_message ::
  "string \<Rightarrow> string \<Rightarrow> string \<Rightarrow> EmbedConfig option \<Rightarrow> string option \<Rightarrow> unit act" where
  "queue_message b user content embed_config campaign_id = (\<lambda>w.
     case active_workers w b of
       None \<Rightarrow> (Inl KeyError, w)
     | Some wk \<Rightarrow>
         (Inr (), w\<lparr>active_workers := (active_workers w)(b \<mapsto>
            wk\<lparr>message_queue := message_queue wk @
               [\<lparr>message_user_id = user, message_text = content, message_embed = embed_config,
                 message_campaign_id = campaign_id, queued_at = now (clk w)\<rparr>]\<rparr>)\<rparr>))"

text \<open>
  The awaits of an execution task at which the cancel operation may arrive: the lookup of
  the campaign, the read of the pending targets, the target update of the \<open>k\<close>-th
  dispatch, the pacing sleep after it, and the final update of the campaign.
\<close>

datatype point = AtLookup | AtFetch | InSend nat | InSleep nat | AtCompletion

text \<open>
  \<open>arrive i p\<close> stands before the await \<open>p\<close> of the task. When \<open>i\<close> names this await,
  \<open>cancel_campaign\<close> runs here, to its end, and if it has cancelled the task (the task was
  registered and the operation got as far as \<open>.cancel()\<close>) the await raises
  \<open>CancelledError\<close> in place of its result. Otherwise the task goes on.
\<close>

definition arrive :: "point option \<Rightarrow> point \<Rightarrow> string \<Rightarrow> string \<Rightarrow> unit act" where
  "arrive i p campaign_id cancelled_by = (\<lambda>w.
     if i = Some p then
       (case cancel_campaign campaign_id cancelled_by w of
          (Inr (Success m s), w1) \<Rightarrow>
            if campaign_tasks w campaign_id \<noteq> None then (Inl CancelledError, w1)
            else (Inr (), w1)
        | (r, w1) \<Rightarrow> (Inr (), w1))
     else (Inr (), w))"

text \<open>
  \<open>_send_campaign_message\<close>, as the \<open>k\<close>-th dispatch of the task for campaign
  \<open>campaign_id\<close>. The filter of the target update compares the target's \<open>campaign_id\<close>
  with \<open>campaign.id\<close>.
\<close>

definition send_campaign_message ::
  "point option \<Rightarrow> string \<Rightarrow> string \<Rightarrow> nat \<Rightarrow> Campaign \<Rightarrow> CampaignTarget \<Rightarrow> unit act" where
  "send_campaign_message i campaign_id cancelled_by k campaign target_doc =
     try_except
       (await (get_bot_worker (target_assigned_bot_id target_doc)) (\<lambda>bot_worker.
          case bot_worker of
            None \<Rightarrow> raise WorkerUnavailable
          | Some wk \<Rightarrow>
              await (queue_message (target_assigned_bot_id target_doc) (target_user_id target_doc)
                       (message_content campaign) (embed_data campaign)
                       (campaign_id_field campaign)) (\<lambda>_.
              await get_collection (\<lambda>_.
              await utcnow (\<lambda>t.
              await (arrive i (InSend k) campaign_id cancelled_by) (\<lambda>_.
              await (update_one campaign_targets put_campaign_targets
                       (\<lambda>r. Some (target_campaign_id r) = campaign_id_field campaign \<and>
                            target_user_id r = target_user_id target_doc)
                       (\<lambda>r. r\<lparr>target_status := SENT, sent_at := Some t\<rparr>)) (\<lambda>_.
              ret ())))))))
       (\<lambda>e.
          await get_collection (\<lambda>_.
          await (update_one campaign_targets put_campaign_targets
                   (\<lambda>r. Some (target_campaign_id r) = campaign_id_field campaign \<and>
                        target_user_id r = target_user_id target_doc)
                   (\<lambda>r. r\<lparr>target_status := TARGET_FAILED, last_error := Some (str e)\<rparr>)) (\<lambda>_.
          raise e)))"

text \<open>The loop of the instant mode: \<open>(sent_count, failed_count)\<close> at its end.\<close>

fun instant_loop ::
  "point option \<Rightarrow> string \<Rightarrow> string \<Rightarrow> Campaign \<Rightarrow> CampaignTarget list \<Rightarrow> nat \<Rightarrow> int \<Rightarrow> int
     \<Rightarrow> (int \<times> int) act" where
  "instant_loop i cid user campaign [] k sent_count failed_count = ret (sent_count, failed_count)"
| "instant_loop i cid user campaign (target_doc # rest) k sent_count failed_count =
     await (try_except
              (await (send_campaign_message i cid user k campaign target_doc) (\<lambda>_. ret True))
              (\<lambda>e. ret False))
       (\<lambda>sent.
          if sent then instant_loop i cid user campaign rest (Suc k) (sent_count + 1) failed_count
          else instant_loop i cid user campaign rest (Suc k) sent_count (failed_count + 1))"

text \<open>
  The loop of the paced mode. Its body is one \<open>try\<close> with the handlers
  \<open>except asyncio.CancelledError: break\<close> and \<open>except Exception: failed_count += 1\<close>.
  The counter \<open>sent_count\<close> is raised between the dispatch and the sleep, so the model
  takes the body in these two halves, each under both handlers.
\<close>

datatype pass = Done | Skipped | Break

fun paced_loop ::
  "point option \<Rightarrow> string \<Rightarrow> string \<Rightarrow> real \<Rightarrow> Campaign \<Rightarrow> CampaignTarget list \<Rightarrow> nat \<Rightarrow> int
     \<Rightarrow> int \<Rightarrow> (int \<times> int) act" where
  "paced_loop i cid user message_interval campaign [] k sent_count failed_count =
     ret (sent_count, failed_count)"
| "paced_loop i cid user message_interval campaign (target_doc # rest) k sent_count failed_count =
     await (except_cancelled
              (try_except
                 (await (send_campaign_message i cid user k campaign target_doc) (\<lambda>_. ret Done))
                 (\<lambda>e. ret Skipped))
              (ret Break))
       (\<lambda>first_half. case first_half of
          Break \<Rightarrow> ret (sent_count, failed_count)
        | Skipped \<Rightarrow>
            paced_loop i cid user message_interval campaign rest (Suc k) sent_count
              (failed_count + 1)
        | Done \<Rightarrow>
            await (except_cancelled
                     (try_except
                        (await (arrive i (InSleep k) cid user) (\<lambda>_.
                         await (asleep message_interval) (\<lambda>_. ret Done)))
                        (\<lambda>e. ret Skipped))
                     (ret Break))
              (\<lambda>second_half. case second_half of
                 Break \<Rightarrow> ret (sent_count + 1, failed_count)
               | Skipped \<Rightarrow>
                   paced_loop i cid user message_interval campaign rest (Suc k) (sent_count + 1)
                     (failed_count + 1)
               | Done \<Rightarrow>
                   paced_loop i cid user message_interval campaign rest (Suc k) (sent_count + 1)
                     failed_count))"

text \<open>The dispatch of the pending targets, by the mode of the campaign.\<close>

definition dispatch :: "point option \<Rightarrow> string \<Rightarrow> string \<Rightarrow> Campaign \<Rightarrow> (int \<times> int) act" where
  "dispatch i cid user campaign =
     (case mode campaign of
        INSTANT \<Rightarrow>
          await (arrive i AtFetch cid user) (\<lambda>_.
          await (find_many campaign_targets
                   (\<lambda>r. target_campaign_id r = cid \<and> target_status r = TARGET_PENDING)) (\<lambda>targets.
          instant_loop i cid user campaign targets 0 0 0))
      | PACED \<Rightarrow>
          if pace campaign = 0 then raise ZeroDivisionError
          else
            await (arrive i AtFetch cid user) (\<lambda>_.
            await (find_many campaign_targets
                     (\<lambda>r. target_campaign_id r = cid \<and> target_status r = TARGET_PENDING)) (\<lambda>targets.
            paced_loop i cid user (60 / real_of_int (pace campaign)) campaign targets 0 0 0))
      | SCHEDULED \<Rightarrow> ret (0, 0))"

text \<open>
  \<open>_execute_campaign\<close>, in three parts: what it does with the campaign it has read,
  its \<open>try\<close> block, and the whole. Both outer handlers only log, so the task always
  ends without an exception.
\<close>

definition execute_found :: "point option \<Rightarrow> string \<Rightarrow> string \<Rightarrow> Campaign \<Rightarrow> unit act" where
  "execute_found i cid user campaign =
     await (dispatch i cid user campaign) (\<lambda>counts.
     await utcnow (\<lambda>t.
     await (arrive i AtCompletion cid user) (\<lambda>_.
     await (update_one campaigns put_campaigns (\<lambda>c. campaign_key c = cid)
              (\<lambda>c. c\<lparr>status := COMPLETED, completed_targets := fst counts,
                     failed_targets := snd counts, campaign_updated_at := t\<rparr>)) (\<lambda>_.
     modify (\<lambda>w. w\<lparr>campaign_tasks := (campaign_tasks w)(cid := None),
                     active_campaigns := (active_campaigns w)(cid := None)\<rparr>)))))"

definition execute_body :: "point option \<Rightarrow> string \<Rightarrow> string \<Rightarrow> unit act" where
  "execute_body i cid user =
     await get_collection (\<lambda>_.
     await get_collection (\<lambda>_.
     await (arrive i AtLookup cid user) (\<lambda>_.
     await (find_one campaigns (\<lambda>c. campaign_key c = cid)) (\<lambda>campaign_doc.
       case campaign_doc of
         None \<Rightarrow> ret ()
       | Some campaign \<Rightarrow> execute_found i cid user campaign))))"

definition execute_campaign :: "point option \<Rightarrow> string \<Rightarrow> string \<Rightarrow> unit act" where
  "execute_campaign i cid user =
     except_cancelled (try_except (execute_body i cid user) (\<lambda>e. ret ())) (ret ())"

section \<open>Properties of cancellation\<close>

subsection \<open>The cancel operation\<close>




subsection \<open>An execution that is cancelled\<close>


text \<open>
  A coroutine of the task obeys the cancellation: run from a world in \<open>P\<close>, it ends with
  \<open>CancelledError\<close> only when the cancel operation has cancelled the task, the campaign
  is then stored as cancelled, and nothing follows; and if it ends in another way the
  task has not been cancelled.
\<close>

definition obeys :: "(world \<Rightarrow> bool) \<Rightarrow> string \<Rightarrow> 'a act \<Rightarrow> bool" where
  "obeys P campaign_id m = (\<forall>w r w1. P w \<longrightarrow> m w = (r, w1) \<longrightarrow>
     (if r = Inl CancelledError
      then stored_status campaign_id w1 = Some CANCELLED \<and> cancelled_tasks w1 \<noteq> cancelled_tasks w
      else cancelled_tasks w1 = cancelled_tasks w))"




lemma obeys_weaken: "obeys Q cid m \<Longrightarrow> (\<And>w. P w \<Longrightarrow> Q w) \<Longrightarrow> obeys P cid m"
  unfolding obeys_def by blast






























subsection \<open>A campaign in execution\<close>

definition target1 :: CampaignTarget where
  "target1 = \<lparr>target_campaign_id = ''c1'', target_user_id = ''u'', target_assigned_bot_id = ''b1'',
     target_status = TARGET_PENDING, last_error = None, sent_at = None\<rparr>"

definition worker1 :: worker where
  "worker1 = \<lparr>worker_bot_id = ''b1'', rate_limiter = new_limiter ''b1'', message_queue = [],
     processed_messages = 0, failed_messages = 0, errors_last_hour = 0\<rparr>"

text \<open>
  The world that \<open>start_campaign\<close> leaves: the campaign is stored as running, its task
  is registered, and its one target is pending, with a worker for the target's bot.
\<close>

definition running_world :: "CampaignMode \<Rightarrow> world" where
  "running_world m = online_world\<lparr>
     campaigns := [campaign1\<lparr>status := RUNNING, mode := m\<rparr>],
     campaign_targets := [target1],
     campaign_tasks := [''c1'' \<mapsto> ExecuteTask ''c1''],
     active_workers := [''b1'' \<mapsto> worker1]\<rparr>"

lemmas execution_defs = execute_campaign_def execute_body_def execute_found_def dispatch_def
  send_campaign_message_def arrive_def cancel_campaign_def find_many_def asleep_def sleep_def
  get_bot_worker_def queue_message_def except_cancelled_def raise_def stored_status_def
  put_campaign_targets_def running_world_def campaign_world_def campaign1_def target1_def
  worker1_def online_world_def controller_defs




lemma instant_execution_not_cancelled:
  "stored_status ''c1'' (snd (execute_campaign None ''c1'' ''admin'' (running_world INSTANT)))
     = Some COMPLETED"
  by (simp add: execution_defs)

subsection \<open>Terminal statuses\<close>





section \<open>bot\_worker.py\<close>

subsection \<open>What the chat platform answers\<close>




subsection \<open>Updates of the rate limiter from a response\<close>



subsection \<open>DiscordBotWorker\<close>

text \<open>\<open>_record_send\<close>: a failure of the store is logged and goes no further.\<close>

definition record_send ::
  "string \<Rightarrow> string option \<Rightarrow> string \<Rightarrow> SendStatus \<Rightarrow> string option \<Rightarrow> string option \<Rightarrow> unit act" where
  "record_send b campaign_id user sent_status code message =
     try_except
       (await get_collection (\<lambda>_.
        insert_one sends put_sends
          \<lparr>send_campaign_id = (case campaign_id of None \<Rightarrow> [] | Some c \<Rightarrow> c),
           send_user_id = user, send_bot_id = b, send_status = sent_status, error_code = code,
           error_message = message\<rparr>))
       (\<lambda>e. ret ())"







section \<open>Properties of the worker\<close>


lemma acquire_outcomes:
  "\<exists>l1 c1. acquire l c m e g = (Returned True, l1, c1) \<or> acquire l c m e g = (Blocked, l1, c1)"
proof -
  obtain k where k: "get_bucket_key m e g = Inr k" using get_bucket_key_total by blast
  show ?thesis
    by (cases "locks (ensure_lock k l) k")
       (auto simp: acquire_def k Let_def locks_ensure_lock buckets_ensure_bucket
          split: prod.splits option.splits bool.splits)
qed

lemma record_send_returns: "fst (record_send b cid u s c m w) = Inr ()"
  by (auto simp: record_send_def try_except_def await_def get_collection_def insert_one_def
      ret_def split: prod.splits fault.splits sum.splits)













subsection \<open>A queued message and its target\<close>










end
